theory Spec2Isabelle
  imports Main "HOL-Library.Sublist"
begin

section \<open>Data model (app/models.py, app/schemas.py)\<close>

text \<open>
  The three tables of \<^verbatim>\<open>models.py\<close>. The primary key column \<^verbatim>\<open>id\<close> of each table is
  named \<open>cafe_pk\<close>, \<open>category_pk\<close> and \<open>assoc_pk\<close> here, since HOL already has a constant
  \<open>id\<close>. Python integers are \<open>int\<close>, Python strings are \<open>string\<close>.
\<close>

record Cafe =
  cafe_pk :: int
  title :: string
  city :: string
  description :: string
  image_url :: "string option"

record Category =
  category_pk :: int
  name :: string

record CafeCategory =
  assoc_pk :: int
  cafe_id :: int
  category_id :: int
  is_best :: bool

text \<open>The store: the rows of the three tables, in insertion order.\<close>

record db =
  cafes :: "Cafe list"
  categories :: "Category list"
  cafe_categories :: "CafeCategory list"

text \<open>\<^verbatim>\<open>schemas.CafeCreate\<close> and \<^verbatim>\<open>schemas.CafeResponse\<close>.\<close>

record CafeCreate =
  req_title :: string
  req_city :: string
  req_description :: string
  req_image_url :: "string option"
  req_best_for :: string
  req_also_good_for :: "string list"

record CafeResponse =
  resp_id :: int
  resp_title :: string
  resp_city :: string
  resp_description :: string
  resp_image_url :: "string option"
  resp_best_for :: "string option"
  resp_also_good_for :: "string list"

section \<open>Errors\<close>

text \<open>
  The \<^verbatim>\<open>detail\<close> of an \<^verbatim>\<open>HTTPException\<close>, one constructor per message of \<^verbatim>\<open>main.py\<close>:
  \<^item> \<open>Categories_do_not_exist S\<close>: \<^verbatim>\<open>f"Categories do not exist: {', '.join(missing)}"\<close>;
    \<^verbatim>\<open>missing\<close> is a Python set, whose iteration order is not fixed, so the detail
    carries the set of names the message lists;
  \<^item> \<open>Category_does_not_exist n\<close>: \<^verbatim>\<open>f"Category {n} does not exist"\<close>;
  \<^item> \<open>Cafe_not_found\<close>: \<^verbatim>\<open>"Cafe not found"\<close>;
  \<^item> \<open>Cafe_already_exists\<close>: \<^verbatim>\<open>"Cafe with this title and city already exists"\<close>.
\<close>

datatype detail =
    Categories_do_not_exist "string set"
  | Category_does_not_exist string
  | Cafe_not_found
  | Cafe_already_exists

datatype error =
    HTTPException int detail
  | MissingGreenlet
  | TypeError
  | IndexError
  | ValueError

section \<open>Relationships and the response view\<close>

text \<open>
  \<^verbatim>\<open>Cafe.category_associations\<close> and \<^verbatim>\<open>CafeCategory.category\<close>: the rows these
  relationships hold once they are loaded. Whether an object can be read for them is
  the matter of \<open>loading\<close> below.
\<close>

definition category_associations :: "db \<Rightarrow> Cafe \<Rightarrow> CafeCategory list" where
  "category_associations d c = filter (\<lambda>a. cafe_id a = cafe_pk c) (cafe_categories d)"

definition category :: "db \<Rightarrow> CafeCategory \<Rightarrow> Category option" where
  "category d a = find (\<lambda>k. category_pk k = category_id a) (categories d)"

text \<open>
  \<^verbatim>\<open>CafeResponse.from_orm\<close>, through the validator
  \<^verbatim>\<open>transform_category_objects_to_names\<close>: an ORM object has neither a string
  \<^verbatim>\<open>best_for\<close> nor a \<^verbatim>\<open>best_for_category\<close>, so the names come from the associations.
\<close>

definition found_best_for_name :: "db \<Rightarrow> Cafe \<Rightarrow> string option" where
  "found_best_for_name d c =
     (case find (\<lambda>a. is_best a \<and> category d a \<noteq> None) (category_associations d c) of
        None \<Rightarrow> None
      | Some a \<Rightarrow> map_option name (category d a))"

definition also_good_for_names :: "db \<Rightarrow> Cafe \<Rightarrow> string list" where
  "also_good_for_names d c =
     concat (map (\<lambda>a. if \<not> is_best a then (case category d a of None \<Rightarrow> [] | Some k \<Rightarrow> [name k]) else [])
                 (category_associations d c))"

definition from_orm :: "db \<Rightarrow> Cafe \<Rightarrow> CafeResponse" where
  "from_orm d c =
     \<lparr> resp_id = cafe_pk c, resp_title = title c, resp_city = city c,
       resp_description = description c, resp_image_url = image_url c,
       resp_best_for = found_best_for_name d c,
       resp_also_good_for = also_good_for_names d c \<rparr>"

text \<open>
  How the query that produced a \<^verbatim>\<open>Cafe\<close> object treated its relationship
  \<^verbatim>\<open>category_associations\<close>: loaded with the object by \<^verbatim>\<open>selectinload\<close>, or left to lazy
  loading, as the mapping declares it. The session is an \<^verbatim>\<open>AsyncSession\<close>
  (\<^verbatim>\<open>database.py\<close>), where reading a relationship that is not loaded raises
  \<^verbatim>\<open>MissingGreenlet\<close> instead of loading it.
\<close>

datatype loading = Selectinload | Lazy

definition relationship :: "loading \<Rightarrow> 'a \<Rightarrow> error + 'a" where
  "relationship l rows = (case l of Selectinload \<Rightarrow> Inr rows | Lazy \<Rightarrow> Inl MissingGreenlet)"

text \<open>
  \<^verbatim>\<open>CafeResponse.from_orm(c)\<close> on an object of the given loading: the validator reads
  \<^verbatim>\<open>category_associations\<close> with \<^verbatim>\<open>getattr(data, 'category_associations', None)\<close>, whose
  default covers \<^verbatim>\<open>AttributeError\<close> only.
\<close>

definition CafeResponse_from_orm :: "loading \<Rightarrow> db \<Rightarrow> Cafe \<Rightarrow> error + CafeResponse" where
  "CafeResponse_from_orm l d c =
     (case relationship l (category_associations d c) of
        Inl e \<Rightarrow> Inl e
      | Inr assocs \<Rightarrow> Inr (from_orm d c))"

fun responses :: "loading \<Rightarrow> db \<Rightarrow> Cafe list \<Rightarrow> error + CafeResponse list" where
  "responses l d [] = Inr []"
| "responses l d (c # cs) =
     (case CafeResponse_from_orm l d c of
        Inl e \<Rightarrow> Inl e
      | Inr r \<Rightarrow> (case responses l d cs of Inl e \<Rightarrow> Inl e | Inr rs \<Rightarrow> Inr (r # rs)))"

section \<open>GET /cafes\<close>

text \<open>
  The query of \<^verbatim>\<open>get_cafes\<close> carries
  \<^verbatim>\<open>selectinload(Cafe.category_associations).selectinload(CafeCategory.category)\<close>, so
  its responses are \<open>from_orm\<close> of the rows.
\<close>

text \<open>
  \<^verbatim>\<open>Cafe.city.ilike(f"%{city}%")\<close> on SQLite is \<^verbatim>\<open>lower(city) LIKE lower(pattern)\<close>.
  \<open>lower_char\<close> is SQLite's \<^verbatim>\<open>lower\<close> (ASCII letters only); \<open>like_match p s\<close> is LIKE:
  \<^verbatim>\<open>%\<close> in the pattern stands for any run of characters and \<^verbatim>\<open>_\<close> for any one character.
\<close>

definition lower_char :: "char \<Rightarrow> char" where
  "lower_char c =
     (if 65 \<le> (of_char c :: nat) \<and> (of_char c :: nat) \<le> 90 then char_of ((of_char c :: nat) + 32) else c)"

definition lower :: "string \<Rightarrow> string" where
  "lower s = map lower_char s"

fun like_match :: "string \<Rightarrow> string \<Rightarrow> bool" where
  "like_match [] s = (s = [])"
| "like_match (p # ps) [] = (p = CHR ''%'' \<and> like_match ps [])"
| "like_match (p # ps) (c # cs) =
     (if p = CHR ''%'' then like_match ps (c # cs) \<or> like_match (p # ps) cs
      else (p = CHR ''_'' \<or> p = c) \<and> like_match ps cs)"

definition ilike :: "string \<Rightarrow> string \<Rightarrow> bool" where
  "ilike s pattern = like_match (lower pattern) (lower s)"

text \<open>Python truthiness of an \<^verbatim>\<open>Optional[str]\<close> or \<^verbatim>\<open>Optional[List[str]]\<close>: \<^verbatim>\<open>None\<close> and the empty value are false.\<close>

fun truthy :: "'a list option \<Rightarrow> bool" where
  "truthy None = False"
| "truthy (Some xs) = (xs \<noteq> [])"

text \<open>The set \<^verbatim>\<open>category_names\<close> built at the start of \<^verbatim>\<open>get_cafes\<close>.\<close>

definition filter_category_names :: "string option \<Rightarrow> string list option \<Rightarrow> string set" where
  "filter_category_names best_for also_good_for =
     (case best_for of None \<Rightarrow> {} | Some b \<Rightarrow> (if b \<noteq> [] then {b} else {})) \<union>
     (case also_good_for of None \<Rightarrow> {} | Some ns \<Rightarrow> set ns)"

text \<open>
  \<^verbatim>\<open>CafeCategory.is_best is True\<close> and \<^verbatim>\<open>CafeCategory.is_best is False\<close> are Python identity
  tests between the mapped column attribute and a \<^verbatim>\<open>bool\<close>; the attribute is neither
  object, so both expressions are the Python value \<^verbatim>\<open>False\<close>, whatever the row holds,
  and \<^verbatim>\<open>filter\<close> receives the constant false condition.
\<close>

definition is_best_is :: "bool \<Rightarrow> CafeCategory \<Rightarrow> bool" where
  "is_best_is b a = False"

text \<open>
  The rows of the query: the cafes alone, or joined with their association rows and the
  categories of those when \<^verbatim>\<open>best_for or also_good_for\<close>.
\<close>

definition joined_rows :: "db \<Rightarrow> (Cafe \<times> CafeCategory \<times> Category) list" where
  "joined_rows d =
     concat (map (\<lambda>c. concat (map (\<lambda>a. map (\<lambda>k. (c, a, k))
                                         (filter (\<lambda>k. category_pk k = category_id a) (categories d)))
                                (filter (\<lambda>a. cafe_id a = cafe_pk c) (cafe_categories d))))
                 (cafes d))"

definition city_filter :: "string option \<Rightarrow> Cafe \<Rightarrow> bool" where
  "city_filter city_arg c =
     (case city_arg of None \<Rightarrow> True
      | Some s \<Rightarrow> (if s \<noteq> [] then ilike (city c) (CHR ''%'' # s @ [CHR ''%'']) else True))"

definition best_for_filter :: "string option \<Rightarrow> CafeCategory \<Rightarrow> Category \<Rightarrow> bool" where
  "best_for_filter best_for a k =
     (if truthy best_for then Some (name k) = best_for \<and> is_best_is True a else True)"

definition also_good_for_filter :: "string list option \<Rightarrow> CafeCategory \<Rightarrow> Category \<Rightarrow> bool" where
  "also_good_for_filter also_good_for a k =
     (case also_good_for of None \<Rightarrow> True
      | Some ns \<Rightarrow> (if ns \<noteq> [] then name k \<in> set ns \<and> is_best_is False a else True))"

definition selected_cafes :: "db \<Rightarrow> string option \<Rightarrow> string option \<Rightarrow> string list option \<Rightarrow> Cafe list" where
  "selected_cafes d city_arg best_for also_good_for =
     remdups
       (if truthy best_for \<or> truthy also_good_for
        then map fst (filter (\<lambda>(c, a, k). city_filter city_arg c \<and> best_for_filter best_for a k
                                          \<and> also_good_for_filter also_good_for a k)
                             (joined_rows d))
        else filter (city_filter city_arg) (cafes d))"

definition get_cafes ::
  "db \<Rightarrow> string option \<Rightarrow> string option \<Rightarrow> string list option \<Rightarrow> (error + CafeResponse list) \<times> db" where
  "get_cafes d city_arg best_for also_good_for =
     (let category_names = filter_category_names best_for also_good_for;
          found_categories = name ` {k \<in> set (categories d). name k \<in> category_names};
          missing = category_names - found_categories
      in if category_names \<noteq> {} \<and> missing \<noteq> {}
         then (Inl (HTTPException 400 (Categories_do_not_exist missing)), d)
         else (Inr (map (from_orm d) (selected_cafes d city_arg best_for also_good_for)), d))"

section \<open>GET /categories\<close>

definition get_categories :: "db \<Rightarrow> (error + (int \<times> string) list) \<times> db" where
  "get_categories d = (Inr (map (\<lambda>cat. (category_pk cat, name cat)) (categories d)), d)"

section \<open>The tables' constraints\<close>

text \<open>
  An autoincrement primary key of SQLite: one more than the largest key of the table,
  1 for an empty table.
\<close>

definition next_id :: "int list \<Rightarrow> int" where
  "next_id ids = Max (insert 0 (set ids)) + 1"

text \<open>
  \<^verbatim>\<open>db.add(db_cafe); await db.flush()\<close>: the INSERT into \<^verbatim>\<open>cafes\<close>. \<open>None\<close> is the
  \<^verbatim>\<open>IntegrityError\<close> of \<^verbatim>\<open>uq_cafe_title_city\<close>; otherwise the new key and the new store.
\<close>

definition insert_cafe :: "db \<Rightarrow> CafeCreate \<Rightarrow> (Cafe \<times> db) option" where
  "insert_cafe d cafe =
     (if (req_title cafe, req_city cafe) \<in> set (map (\<lambda>c. (title c, city c)) (cafes d)) then None
      else (let db_cafe = \<lparr> cafe_pk = next_id (map cafe_pk (cafes d)), title = req_title cafe,
                             city = req_city cafe, description = req_description cafe,
                             image_url = req_image_url cafe \<rparr>
            in Some (db_cafe, d\<lparr>cafes := cafes d @ [db_cafe]\<rparr>)))"

text \<open>
  \<^verbatim>\<open>db.add(CafeCategory(cafe_id=..., category_id=..., is_best=...))\<close>, as the INSERT the
  commit flushes. \<open>None\<close> is the \<^verbatim>\<open>IntegrityError\<close> of \<^verbatim>\<open>uq_cafe_category\<close>.
\<close>

definition insert_cafe_category :: "db \<Rightarrow> int \<Rightarrow> int \<Rightarrow> bool \<Rightarrow> db option" where
  "insert_cafe_category d c k b =
     (if (c, k) \<in> set (map (\<lambda>a. (cafe_id a, category_id a)) (cafe_categories d)) then None
      else Some (d\<lparr>cafe_categories := cafe_categories d @
                     [\<lparr> assoc_pk = next_id (map assoc_pk (cafe_categories d)),
                        cafe_id = c, category_id = k, is_best = b \<rparr>]\<rparr>))"

fun insert_cafe_categories :: "db \<Rightarrow> int \<Rightarrow> (int \<times> bool) list \<Rightarrow> db option" where
  "insert_cafe_categories d c [] = Some d"
| "insert_cafe_categories d c ((k, b) # rest) =
     (case insert_cafe_category d c k b of
        None \<Rightarrow> None
      | Some d' \<Rightarrow> insert_cafe_categories d' c rest)"

text \<open>
  The UPDATE of the cafe row that the session flushes before the DELETE statement of
  \<^verbatim>\<open>update_cafe\<close>; \<open>None\<close> is the \<^verbatim>\<open>IntegrityError\<close> of \<^verbatim>\<open>uq_cafe_title_city\<close>.
\<close>

definition update_cafe_row :: "db \<Rightarrow> int \<Rightarrow> CafeCreate \<Rightarrow> db option" where
  "update_cafe_row d i cafe =
     (if \<exists>c \<in> set (cafes d). cafe_pk c \<noteq> i \<and> title c = req_title cafe \<and> city c = req_city cafe
      then None
      else Some (d\<lparr>cafes := map (\<lambda>c. if cafe_pk c = i
                                       then c\<lparr>title := req_title cafe, city := req_city cafe,
                                              description := req_description cafe,
                                              image_url := req_image_url cafe\<rparr>
                                       else c) (cafes d)\<rparr>))"

text \<open>\<^verbatim>\<open>delete(CafeCategory).filter_by(cafe_id=db_cafe.id)\<close>.\<close>

definition delete_cafe_categories :: "db \<Rightarrow> int \<Rightarrow> db" where
  "delete_cafe_categories d i = d\<lparr>cafe_categories := filter (\<lambda>a. cafe_id a \<noteq> i) (cafe_categories d)\<rparr>"

section \<open>Category validation of the write path\<close>

text \<open>
  \<^verbatim>\<open>valid_categories = {cat.name: cat for cat in result.scalars().all()}\<close> over the
  categories whose name is in \<^verbatim>\<open>category_names\<close>; in a dict comprehension a later row
  replaces an earlier one of the same name.
\<close>

definition valid_categories :: "db \<Rightarrow> string set \<Rightarrow> string \<Rightarrow> Category option" where
  "valid_categories d category_names =
     map_of (rev (map (\<lambda>cat. (name cat, cat)) (filter (\<lambda>cat. name cat \<in> category_names) (categories d))))"

definition request_category_names :: "CafeCreate \<Rightarrow> string set" where
  "request_category_names cafe = insert (req_best_for cafe) (set (req_also_good_for cafe))"

text \<open>
  The loop \<^verbatim>\<open>for cat_name in cafe.also_good_for: if cat_name not in valid_categories: raise\<close>
  together with the later reads \<^verbatim>\<open>valid_categories[cat_name]\<close>: \<open>Inl n\<close> is the first
  name that is not a key, \<open>Inr\<close> the categories the names stand for.
\<close>

fun resolve :: "(string \<Rightarrow> Category option) \<Rightarrow> string list \<Rightarrow> string + Category list" where
  "resolve valid [] = Inr []"
| "resolve valid (n # ns) =
     (case valid n of
        None \<Rightarrow> Inl n
      | Some cat \<Rightarrow> (case resolve valid ns of Inl m \<Rightarrow> Inl m | Inr cats \<Rightarrow> Inr (cat # cats)))"

text \<open>
  The rows the write path adds: \<^verbatim>\<open>is_best=True\<close> for the best category, then one row
  with \<^verbatim>\<open>is_best=False\<close> per name of \<^verbatim>\<open>also_good_for\<close>, as (category_id, is_best).
\<close>

definition association_rows :: "Category \<Rightarrow> Category list \<Rightarrow> (int \<times> bool) list" where
  "association_rows best also = (category_pk best, True) # map (\<lambda>cat. (category_pk cat, False)) also"

definition conflict :: error where
  "conflict = HTTPException 400 Cafe_already_exists"

section \<open>POST /cafes\<close>

text \<open>
  \<^verbatim>\<open>db_cafe\<close> is a new object that went through \<^verbatim>\<open>flush\<close>, \<^verbatim>\<open>commit\<close> and \<^verbatim>\<open>refresh\<close>: its
  relationship is not loaded when \<^verbatim>\<open>CafeResponse.from_orm(db_cafe)\<close> reads it. The
  exception leaves the \<^verbatim>\<open>try\<close> block, which catches \<^verbatim>\<open>IntegrityError\<close> only, after the
  commit: the store is the new one.
\<close>

definition create_cafe :: "db \<Rightarrow> CafeCreate \<Rightarrow> (error + CafeResponse) \<times> db" where
  "create_cafe d cafe =
     (let valid = valid_categories d (request_category_names cafe) in
      case valid (req_best_for cafe) of
        None \<Rightarrow> (Inl (HTTPException 400 (Category_does_not_exist (req_best_for cafe))), d)
      | Some best \<Rightarrow>
         (case resolve valid (req_also_good_for cafe) of
            Inl cat_name \<Rightarrow> (Inl (HTTPException 400 (Category_does_not_exist cat_name)), d)
          | Inr also \<Rightarrow>
             (case insert_cafe d cafe of
                None \<Rightarrow> (Inl conflict, d)
              | Some (db_cafe, d1) \<Rightarrow>
                 (case insert_cafe_categories d1 (cafe_pk db_cafe)
                         (association_rows best also) of
                    None \<Rightarrow> (Inl conflict, d)
                  | Some d2 \<Rightarrow>
                     (case CafeResponse_from_orm Lazy d2 db_cafe of
                        Inl e \<Rightarrow> (Inl e, d2)
                      | Inr response \<Rightarrow> (Inr response, d2))))))"

section \<open>PUT /cafes/{cafe_id}\<close>

text \<open>
  \<^verbatim>\<open>db_cafe\<close> comes from \<^verbatim>\<open>select(Cafe).filter_by(id=cafe_id)\<close>, without
  \<^verbatim>\<open>selectinload\<close>; as in \<^verbatim>\<open>create_cafe\<close>, building the response after the commit reads a
  relationship that is not loaded.
\<close>

definition update_cafe :: "db \<Rightarrow> int \<Rightarrow> CafeCreate \<Rightarrow> (error + CafeResponse) \<times> db" where
  "update_cafe d i cafe =
     (case find (\<lambda>c. cafe_pk c = i) (cafes d) of
        None \<Rightarrow> (Inl (HTTPException 404 Cafe_not_found), d)
      | Some db_cafe \<Rightarrow>
         (let valid = valid_categories d (request_category_names cafe) in
          case valid (req_best_for cafe) of
            None \<Rightarrow> (Inl (HTTPException 400 (Category_does_not_exist (req_best_for cafe))), d)
          | Some best \<Rightarrow>
             (case resolve valid (req_also_good_for cafe) of
                Inl cat_name \<Rightarrow> (Inl (HTTPException 400 (Category_does_not_exist cat_name)), d)
              | Inr also \<Rightarrow>
                 (case update_cafe_row d i cafe of
                    None \<Rightarrow> (Inl conflict, d)
                  | Some d1 \<Rightarrow>
                     (case insert_cafe_categories (delete_cafe_categories d1 i) i
                             (association_rows best also) of
                        None \<Rightarrow> (Inl conflict, d)
                      | Some d2 \<Rightarrow>
                         (case CafeResponse_from_orm Lazy d2
                                 (db_cafe\<lparr>title := req_title cafe, city := req_city cafe,
                                          description := req_description cafe,
                                          image_url := req_image_url cafe\<rparr>) of
                            Inl e \<Rightarrow> (Inl e, d2)
                          | Inr response \<Rightarrow> (Inr response, d2)))))))"

section \<open>DELETE /cafes/{cafe_id}\<close>

definition delete_cafe :: "db \<Rightarrow> int \<Rightarrow> (error + string) \<times> db" where
  "delete_cafe d i =
     (case find (\<lambda>c. cafe_pk c = i) (cafes d) of
        None \<Rightarrow> (Inl (HTTPException 404 Cafe_not_found), d)
      | Some db_cafe \<Rightarrow>
         (let d1 = delete_cafe_categories d (cafe_pk db_cafe)
          in (Inr ''Cafe deleted'', d1\<lparr>cafes := filter (\<lambda>c. cafe_pk c \<noteq> cafe_pk db_cafe) (cafes d1)\<rparr>)))"

section \<open>The recommender\<close>

text \<open>Python's \<^verbatim>\<open>str\<close> of an integer.\<close>

fun str_nat :: "nat \<Rightarrow> string" where
  "str_nat n = (if n < 10 then [char_of (48 + n)] else str_nat (n div 10) @ [char_of (48 + n mod 10)])"

definition str_int :: "int \<Rightarrow> string" where
  "str_int i = (if i < 0 then CHR ''-'' # str_nat (nat (- i)) else str_nat (nat i))"

text \<open>
  The properties \<^verbatim>\<open>Cafe.best_for\<close> and \<^verbatim>\<open>Cafe.also_good_for\<close>: they read
  \<^verbatim>\<open>self.category_associations\<close> and return \<^verbatim>\<open>Category\<close> objects.
\<close>

definition best_for :: "loading \<Rightarrow> db \<Rightarrow> Cafe \<Rightarrow> error + Category option" where
  "best_for l d c =
     (case relationship l (category_associations d c) of
        Inl e \<Rightarrow> Inl e
      | Inr assocs \<Rightarrow>
         Inr (case find is_best assocs of None \<Rightarrow> None | Some assoc \<Rightarrow> category d assoc))"

definition also_good_for :: "loading \<Rightarrow> db \<Rightarrow> Cafe \<Rightarrow> error + Category option list" where
  "also_good_for l d c =
     (case relationship l (category_associations d c) of
        Inl e \<Rightarrow> Inl e
      | Inr assocs \<Rightarrow> Inr (map (category d) (filter (\<lambda>assoc. \<not> is_best assoc) assocs)))"

text \<open>
  What an f-string prints for \<^verbatim>\<open>cafe.best_for\<close>: \<^verbatim>\<open>Category\<close> has no \<^verbatim>\<open>__str__\<close>, so it is
  \<^verbatim>\<open>Category.__repr__\<close>, and \<^verbatim>\<open>None\<close> prints as \<^verbatim>\<open>None\<close>.
\<close>

definition Category_repr :: "Category \<Rightarrow> string" where
  "Category_repr cat = ''<Category(id='' @ str_int (category_pk cat) @ '', name='' @ [CHR 0x27] @ name cat @ [CHR 0x27] @ '')>''"

definition format_best_for :: "Category option \<Rightarrow> string" where
  "format_best_for b = (case b of None \<Rightarrow> ''None'' | Some cat \<Rightarrow> Category_repr cat)"

text \<open>
  \<^verbatim>\<open>' '.join(cafe.also_good_for)\<close>: \<^verbatim>\<open>str.join\<close> accepts strings only, and the items are
  \<^verbatim>\<open>Category\<close> objects (or \<^verbatim>\<open>None\<close>), so it raises \<^verbatim>\<open>TypeError\<close> at the first item; the
  join of no items is the empty string.
\<close>

fun join_also_good_for :: "Category option list \<Rightarrow> error + string" where
  "join_also_good_for [] = Inr []"
| "join_also_good_for (item # items) = Inl TypeError"

text \<open>
  \<^verbatim>\<open>f"{cafe.description} {cafe.best_for} {' '.join(cafe.also_good_for)}"\<close>, its
  expressions evaluated from left to right.
\<close>

definition cafe_text :: "loading \<Rightarrow> db \<Rightarrow> Cafe \<Rightarrow> error + string" where
  "cafe_text l d c =
     (case best_for l d c of
        Inl e \<Rightarrow> Inl e
      | Inr best \<Rightarrow>
         (case also_good_for l d c of
            Inl e \<Rightarrow> Inl e
          | Inr items \<Rightarrow>
             (case join_also_good_for items of
                Inl e \<Rightarrow> Inl e
              | Inr joined \<Rightarrow> Inr (description c @ '' '' @ format_best_for best @ '' '' @ joined))))"

fun texts :: "loading \<Rightarrow> db \<Rightarrow> Cafe list \<Rightarrow> error + string list" where
  "texts l d [] = Inr []"
| "texts l d (c # cs) =
     (case cafe_text l d c of
        Inl e \<Rightarrow> Inl e
      | Inr t \<Rightarrow> (case texts l d cs of Inl e \<Rightarrow> Inl e | Inr ts \<Rightarrow> Inr (t # ts)))"

text \<open>
  \<^verbatim>\<open>np.argsort(similarities[cafe_idx])[::-1][1:4]\<close>. \<^verbatim>\<open>np.argsort\<close> is a parameter: numpy
  promises no order among equal values for its default kind.
\<close>

definition similar_indices :: "('s list \<Rightarrow> nat list) \<Rightarrow> 's list \<Rightarrow> nat list" where
  "similar_indices argsort row = take 3 (drop 1 (rev (argsort row)))"

text \<open>\<^verbatim>\<open>list.index\<close>: the first position of a value, \<open>None\<close> for Python's \<^verbatim>\<open>ValueError\<close>.\<close>

fun index_of :: "int list \<Rightarrow> int \<Rightarrow> nat option" where
  "index_of [] v = None"
| "index_of (x # xs) v = (if x = v then Some 0 else map_option Suc (index_of xs v))"

text \<open>
  \<^verbatim>\<open>recommend_similar_cafes\<close>. The cafes come from \<^verbatim>\<open>select(Cafe)\<close>, without
  \<^verbatim>\<open>selectinload\<close>: their relationships are left to lazy loading. The parameter
  \<open>cosine_similarity\<close> stands for scikit-learn's
  \<^verbatim>\<open>cosine_similarity(TfidfVectorizer().fit_transform(texts))\<close>, the matrix of pairwise
  similarities of the documents, and \<open>argsort\<close> for \<^verbatim>\<open>np.argsort\<close>.
\<close>

definition recommend_similar_cafes ::
  "(string list \<Rightarrow> 's list list) \<Rightarrow> ('s list \<Rightarrow> nat list) \<Rightarrow> db \<Rightarrow> int \<Rightarrow>
     (error + CafeResponse list) \<times> db" where
  "recommend_similar_cafes cosine_similarity argsort d i =
     (case find (\<lambda>c. cafe_pk c = i) (cafes d) of
        None \<Rightarrow> (Inl (HTTPException 404 Cafe_not_found), d)
      | Some target_cafe \<Rightarrow>
         if length (cafes d) \<le> 1 then (Inr [], d)
         else (case texts Lazy d (cafes d) of
                 Inl e \<Rightarrow> (Inl e, d)
               | Inr ts \<Rightarrow>
                  (let similarities = cosine_similarity ts in
                   case index_of (map cafe_pk (cafes d)) i of
                     None \<Rightarrow> (Inl ValueError, d)
                   | Some cafe_idx \<Rightarrow>
                      if cafe_idx < length similarities
                      then (let idxs = similar_indices argsort (similarities ! cafe_idx) in
                            if list_all (\<lambda>j. j < length (cafes d)) idxs
                            then (case responses Lazy d (map (\<lambda>j. cafes d ! j) idxs) of
                                    Inl e \<Rightarrow> (Inl e, d)
                                  | Inr rs \<Rightarrow> (Inr rs, d))
                            else (Inl IndexError, d))
                      else (Inl IndexError, d))))"

section \<open>Predicates of the properties\<close>

text \<open>
  The constraints of the schema (primary keys, \<^verbatim>\<open>uq_cafe_title_city\<close>, the unique category
  name, \<^verbatim>\<open>uq_cafe_category\<close>) together with the foreign key from an association row to
  its cafe, which SQLite does not enforce by itself and the operations maintain.
\<close>

definition wf_db :: "db \<Rightarrow> bool" where
  "wf_db d =
     (distinct (map cafe_pk (cafes d)) \<and>
      distinct (map (\<lambda>c. (title c, city c)) (cafes d)) \<and>
      distinct (map category_pk (categories d)) \<and>
      distinct (map name (categories d)) \<and>
      distinct (map assoc_pk (cafe_categories d)) \<and>
      distinct (map (\<lambda>a. (cafe_id a, category_id a)) (cafe_categories d)) \<and>
      cafe_id ` set (cafe_categories d) \<subseteq> cafe_pk ` set (cafes d))"

text \<open>
  What a write promises of the cafe it wrote: exactly one row with \<^verbatim>\<open>is_best\<close> true, and
  the category of that row is the category of no row with \<^verbatim>\<open>is_best\<close> false.
\<close>

definition written_ok :: "db \<Rightarrow> int \<Rightarrow> bool" where
  "written_ok d i =
     (let rows = filter (\<lambda>a. cafe_id a = i) (cafe_categories d)
      in length (filter is_best rows) = 1 \<and>
         set (map category_id (filter is_best rows)) \<inter>
         set (map category_id (filter (\<lambda>a. \<not> is_best a) rows)) = {})"

text \<open>Every cafe of the store is as a write leaves the cafe it wrote.\<close>

definition every_cafe_ok :: "db \<Rightarrow> bool" where
  "every_cafe_ok d = list_all (\<lambda>c. written_ok d (cafe_pk c)) (cafes d)"


section \<open>Example stores and requests\<close>

text \<open>
  The example of the specification: cafe A in Paris, best for wifi and also good for
  quiet; and the request for a cafe B that names wifi in both fields.
\<close>

definition wifi :: Category where
  "wifi = \<lparr> category_pk = 1, name = ''wifi'' \<rparr>"

definition quiet :: Category where
  "quiet = \<lparr> category_pk = 2, name = ''quiet'' \<rparr>"

definition cafe_A :: Cafe where
  "cafe_A = \<lparr> cafe_pk = 1, title = ''A'', city = ''Paris'', description = ''cozy'', image_url = None \<rparr>"

definition paris_db :: db where
  "paris_db = \<lparr> cafes = [cafe_A], categories = [wifi, quiet],
                cafe_categories = [\<lparr> assoc_pk = 1, cafe_id = 1, category_id = 1, is_best = True \<rparr>,
                                   \<lparr> assoc_pk = 2, cafe_id = 1, category_id = 2, is_best = False \<rparr>] \<rparr>"

definition cafe_B :: CafeCreate where
  "cafe_B = \<lparr> req_title = ''B'', req_city = ''Paris'', req_description = ''calm'', req_image_url = None,
              req_best_for = ''wifi'', req_also_good_for = [''wifi''] \<rparr>"

text \<open>A request with known categories and a free title and city.\<close>

definition cafe_C :: CafeCreate where
  "cafe_C = \<lparr> req_title = ''C'', req_city = ''Lyon'', req_description = ''bright'', req_image_url = None,
              req_best_for = ''quiet'', req_also_good_for = [''wifi''] \<rparr>"

text \<open>Two cafes with the same description and the same best category, and no other association.\<close>

definition twin_db :: db where
  "twin_db = \<lparr> cafes = [\<lparr> cafe_pk = 1, title = ''A'', city = ''Paris'', description = ''calm'', image_url = None \<rparr>,
                         \<lparr> cafe_pk = 2, title = ''B'', city = ''Paris'', description = ''calm'', image_url = None \<rparr>],
               categories = [wifi, quiet],
               cafe_categories = [\<lparr> assoc_pk = 1, cafe_id = 1, category_id = 1, is_best = True \<rparr>,
                                  \<lparr> assoc_pk = 2, cafe_id = 2, category_id = 1, is_best = True \<rparr>] \<rparr>"

text \<open>A request that repeats the title and city of cafe A.\<close>

definition cafe_A_again :: CafeCreate where
  "cafe_A_again = \<lparr> req_title = ''A'', req_city = ''Paris'', req_description = ''new'', req_image_url = None,
                    req_best_for = ''wifi'', req_also_good_for = [''quiet''] \<rparr>"

text \<open>A request with two unknown category names, garden and view.\<close>

definition cafe_D :: CafeCreate where
  "cafe_D = \<lparr> req_title = ''D'', req_city = ''Nice'', req_description = ''sunny'', req_image_url = None,
              req_best_for = ''garden'', req_also_good_for = [''wifi'', ''view''] \<rparr>"

text \<open>Cafe A of the example and a second cafe, best for quiet.\<close>

definition pair_db :: db where
  "pair_db = \<lparr> cafes = [cafe_A,
                         \<lparr> cafe_pk = 2, title = ''B'', city = ''Lyon'', description = ''calm'', image_url = None \<rparr>],
               categories = [wifi, quiet],
               cafe_categories = [\<lparr> assoc_pk = 1, cafe_id = 1, category_id = 1, is_best = True \<rparr>,
                                  \<lparr> assoc_pk = 2, cafe_id = 1, category_id = 2, is_best = False \<rparr>,
                                  \<lparr> assoc_pk = 3, cafe_id = 2, category_id = 2, is_best = True \<rparr>] \<rparr>"

section \<open>Lemmas on category validation\<close>

lemma valid_categories_None:
  "valid_categories d N n = None \<longleftrightarrow> \<not> (n \<in> N \<and> n \<in> name ` set (categories d))"
  by (auto simp: valid_categories_def map_of_eq_None_iff image_iff)

lemma valid_categories_Some:
  "valid_categories d N n = Some cat \<Longrightarrow> cat \<in> set (categories d) \<and> name cat = n \<and> n \<in> N"
  by (auto simp: valid_categories_def dest!: map_of_SomeD)

lemma resolve_Inl:
  "resolve valid ns = Inl m \<longleftrightarrow> find (\<lambda>n. valid n = None) ns = Some m"
  by (induction ns) (auto split: option.splits sum.splits)

lemma resolve_Inr:
  "resolve valid ns = Inr cats \<Longrightarrow> list_all2 (\<lambda>n cat. valid n = Some cat) ns cats"
  by (induction ns arbitrary: cats) (auto split: option.splits sum.splits)

lemma find_valid_known:
  "set ns \<subseteq> N \<Longrightarrow>
     find (\<lambda>n. valid_categories d N n = None) ns = find (\<lambda>n. n \<notin> name ` set (categories d)) ns"
  by (induction ns) (auto simp: valid_categories_None)

section \<open>Lemmas on the inserts\<close>

lemma next_id_fresh: "next_id ids \<notin> set ids"
proof
  assume "next_id ids \<in> set ids"
  then have "next_id ids \<le> Max (insert 0 (set ids))" by (intro Max_ge) auto
  then show False by (simp add: next_id_def)
qed

lemma insert_cafe_category_Some:
  assumes "insert_cafe_category d c k b = Some d'"
  shows "cafes d' = cafes d" and "categories d' = categories d"
    and "cafe_categories d' = cafe_categories d @
           [\<lparr> assoc_pk = next_id (map assoc_pk (cafe_categories d)), cafe_id = c, category_id = k, is_best = b \<rparr>]"
    and "(c, k) \<notin> set (map (\<lambda>a. (cafe_id a, category_id a)) (cafe_categories d))"
  using assms by (auto simp: insert_cafe_category_def split: if_splits)

lemma insert_cafe_categories_frame:
  "insert_cafe_categories d c rows = Some d' \<Longrightarrow> cafes d' = cafes d \<and> categories d' = categories d"
proof (induction rows arbitrary: d)
  case Nil
  then show ?case by simp
next
  case (Cons row rows)
  obtain k b where row: "row = (k, b)" by (cases row)
  from Cons.prems row obtain d1 where
    d1: "insert_cafe_category d c k b = Some d1" and rest: "insert_cafe_categories d1 c rows = Some d'"
    by (auto split: option.splits)
  from Cons.IH [OF rest] insert_cafe_category_Some(1,2) [OF d1] show ?case by simp
qed

lemma insert_cafe_categories_rows:
  "insert_cafe_categories d c rows = Some d' \<Longrightarrow>
     \<exists>new. cafe_categories d' = cafe_categories d @ new \<and>
           map (\<lambda>a. (category_id a, is_best a)) new = rows \<and>
           (\<forall>a \<in> set new. cafe_id a = c)"
proof (induction rows arbitrary: d)
  case Nil
  then show ?case by simp
next
  case (Cons row rows)
  obtain k b where row: "row = (k, b)" by (cases row)
  from Cons.prems row obtain d1 where
    d1: "insert_cafe_category d c k b = Some d1" and rest: "insert_cafe_categories d1 c rows = Some d'"
    by (auto split: option.splits)
  from Cons.IH [OF rest] obtain new where
    new: "cafe_categories d' = cafe_categories d1 @ new"
         "map (\<lambda>a. (category_id a, is_best a)) new = rows" "\<forall>a \<in> set new. cafe_id a = c"
    by blast
  let ?a = "\<lparr> assoc_pk = next_id (map assoc_pk (cafe_categories d)), cafe_id = c, category_id = k, is_best = b \<rparr>"
  from new insert_cafe_category_Some(3) [OF d1] row
  have "cafe_categories d' = cafe_categories d @ (?a # new) \<and>
        map (\<lambda>a. (category_id a, is_best a)) (?a # new) = row # rows \<and>
        (\<forall>a \<in> set (?a # new). cafe_id a = c)"
    by simp
  then show ?case by (intro exI [of _ "?a # new"])
qed

lemma insert_cafe_category_distinct:
  assumes "insert_cafe_category d c k b = Some d'"
  shows "distinct (map assoc_pk (cafe_categories d)) \<Longrightarrow> distinct (map assoc_pk (cafe_categories d'))"
    and "distinct (map (\<lambda>a. (cafe_id a, category_id a)) (cafe_categories d)) \<Longrightarrow>
         distinct (map (\<lambda>a. (cafe_id a, category_id a)) (cafe_categories d'))"
  using insert_cafe_category_Some(3,4) [OF assms] next_id_fresh [of "map assoc_pk (cafe_categories d)"]
  by auto

lemma insert_cafe_categories_distinct:
  "insert_cafe_categories d c rows = Some d' \<Longrightarrow>
     (distinct (map assoc_pk (cafe_categories d)) \<longrightarrow> distinct (map assoc_pk (cafe_categories d'))) \<and>
     (distinct (map (\<lambda>a. (cafe_id a, category_id a)) (cafe_categories d)) \<longrightarrow>
      distinct (map (\<lambda>a. (cafe_id a, category_id a)) (cafe_categories d')))"
proof (induction rows arbitrary: d)
  case Nil
  then show ?case by simp
next
  case (Cons row rows)
  obtain k b where row: "row = (k, b)" by (cases row)
  from Cons.prems row obtain d1 where
    d1: "insert_cafe_category d c k b = Some d1" and rest: "insert_cafe_categories d1 c rows = Some d'"
    by (auto split: option.splits)
  from Cons.IH [OF rest] insert_cafe_category_distinct [OF d1] show ?case by blast
qed

lemma wf_insert_cafe_categories:
  assumes "wf_db d" and "insert_cafe_categories d c rows = Some d'" and "c \<in> cafe_pk ` set (cafes d)"
  shows "wf_db d'"
proof -
  from insert_cafe_categories_rows [OF assms(2)] obtain new where
    new: "cafe_categories d' = cafe_categories d @ new" "\<forall>a \<in> set new. cafe_id a = c" by blast
  from new assms(1,3) have "cafe_id ` set (cafe_categories d') \<subseteq> cafe_pk ` set (cafes d)"
    by (auto simp: wf_db_def)
  with assms(1) insert_cafe_categories_frame [OF assms(2)] insert_cafe_categories_distinct [OF assms(2)]
  show ?thesis by (simp add: wf_db_def)
qed

lemma insert_cafe_Some:
  assumes "insert_cafe d cafe = Some (c, d')"
  shows "c = \<lparr> cafe_pk = next_id (map cafe_pk (cafes d)), title = req_title cafe, city = req_city cafe,
               description = req_description cafe, image_url = req_image_url cafe \<rparr>"
    and "cafes d' = cafes d @ [c]" and "categories d' = categories d"
    and "cafe_categories d' = cafe_categories d"
    and "(req_title cafe, req_city cafe) \<notin> set (map (\<lambda>c. (title c, city c)) (cafes d))"
  using assms by (auto simp: insert_cafe_def Let_def split: if_splits)

lemma wf_insert_cafe:
  assumes "wf_db d" and "insert_cafe d cafe = Some (c, d')"
  shows "wf_db d'" and "cafe_pk c \<in> cafe_pk ` set (cafes d')" and "cafe_pk c \<notin> cafe_id ` set (cafe_categories d')"
proof -
  note s = insert_cafe_Some [OF assms(2)]
  have fresh: "cafe_pk c \<notin> set (map cafe_pk (cafes d))"
    using s(1) next_id_fresh [of "map cafe_pk (cafes d)"] by simp
  from assms(1) s fresh show "wf_db d'"
    by (auto simp: wf_db_def)
  from s show "cafe_pk c \<in> cafe_pk ` set (cafes d')" by simp
  from assms(1) s fresh show "cafe_pk c \<notin> cafe_id ` set (cafe_categories d')"
    by (auto simp: wf_db_def)
qed

section \<open>Lemmas on update and delete\<close>

lemma distinct_title_city_update:
  assumes "distinct (map cafe_pk xs)" and "distinct (map (\<lambda>c. (title c, city c)) xs)"
    and "\<forall>c \<in> set xs. cafe_pk c \<noteq> i \<longrightarrow> (title c, city c) \<noteq> (t, y)"
  shows "distinct (map (\<lambda>c. (title c, city c))
           (map (\<lambda>c. if cafe_pk c = i then c\<lparr>title := t, city := y, description := e, image_url := u\<rparr> else c) xs))"
  using assms
proof (induction xs)
  case Nil
  then show ?case by simp
next
  case (Cons x xs)
  then have IH: "distinct (map (\<lambda>c. (title c, city c))
           (map (\<lambda>c. if cafe_pk c = i then c\<lparr>title := t, city := y, description := e, image_url := u\<rparr> else c) xs))"
    by simp
  show ?case
  proof (cases "cafe_pk x = i")
    case True
    from Cons.prems(1) have "cafe_pk x \<notin> cafe_pk ` set xs" by simp
    with True have "\<forall>c \<in> set xs. cafe_pk c \<noteq> i" by (metis imageI)
    with Cons.prems True IH show ?thesis by (auto simp: image_iff)
  next
    case False
    with Cons.prems IH show ?thesis by (auto simp: image_iff)
  qed
qed

lemma update_cafe_row_Some:
  assumes "update_cafe_row d i cafe = Some d'"
  shows "categories d' = categories d" and "cafe_categories d' = cafe_categories d"
    and "map cafe_pk (cafes d') = map cafe_pk (cafes d)"
    and "cafes d' = map (\<lambda>c. if cafe_pk c = i
                               then c\<lparr>title := req_title cafe, city := req_city cafe,
                                      description := req_description cafe, image_url := req_image_url cafe\<rparr>
                               else c) (cafes d)"
    and "\<forall>c \<in> set (cafes d). cafe_pk c \<noteq> i \<longrightarrow> (title c, city c) \<noteq> (req_title cafe, req_city cafe)"
  using assms by (auto simp: update_cafe_row_def comp_def split: if_splits)

lemma wf_update_cafe_row:
  assumes "wf_db d" and "update_cafe_row d i cafe = Some d'"
  shows "wf_db d'"
proof -
  note s = update_cafe_row_Some [OF assms(2)]
  from assms(1) have "distinct (map cafe_pk (cafes d))" "distinct (map (\<lambda>c. (title c, city c)) (cafes d))"
    by (simp_all add: wf_db_def)
  from distinct_title_city_update [OF this s(5)]
  have "distinct (map (\<lambda>c. (title c, city c)) (cafes d'))" by (simp only: s(4))
  moreover have "cafe_pk ` set (cafes d') = cafe_pk ` set (cafes d)"
    using s(3) by (metis list.set_map)
  ultimately show ?thesis using assms(1) s(1,2,3) by (simp add: wf_db_def)
qed

lemma wf_delete_cafe_categories:
  assumes "wf_db d"
  shows "wf_db (delete_cafe_categories d i)"
  using assms by (auto simp: wf_db_def delete_cafe_categories_def distinct_map_filter)

lemma find_cafe_Some:
  "find (\<lambda>c. cafe_pk c = i) xs = Some c \<Longrightarrow> c \<in> set xs \<and> cafe_pk c = i"
  by (auto simp: find_Some_iff)

lemma wf_db_empty:
  "distinct (map category_pk cs) \<Longrightarrow> distinct (map name cs) \<Longrightarrow>
     wf_db \<lparr> cafes = [], categories = cs, cafe_categories = [] \<rparr>"
  by (simp add: wf_db_def)

lemma wf_db_fk:
  "wf_db d \<Longrightarrow> a \<in> set (cafe_categories d) \<Longrightarrow> cafe_id a \<in> cafe_pk ` set (cafes d)"
  unfolding wf_db_def by blast

lemma wf_delete_cafe:
  assumes "wf_db d"
  shows "wf_db (snd (delete_cafe d i))"
proof (cases "find (\<lambda>c. cafe_pk c = i) (cafes d)")
  case None
  with assms show ?thesis by (simp add: delete_cafe_def)
next
  case (Some c)
  from find_cafe_Some [OF Some] have i: "cafe_pk c = i" by (rule conjunct2)
  let ?cs = "filter (\<lambda>c. cafe_pk c \<noteq> i) (cafes d)"
  let ?as = "filter (\<lambda>a. cafe_id a \<noteq> i) (cafe_categories d)"
  have res: "snd (delete_cafe d i) = d\<lparr>cafes := ?cs, cafe_categories := ?as\<rparr>"
    using Some i by (simp add: delete_cafe_def Let_def delete_cafe_categories_def)
  have fk: "cafe_id ` set ?as \<subseteq> cafe_pk ` set ?cs"
  proof
    fix x assume "x \<in> cafe_id ` set ?as"
    then obtain a where a: "a \<in> set (cafe_categories d)" "cafe_id a \<noteq> i" "x = cafe_id a" by auto
    from wf_db_fk [OF assms a(1)] obtain c' where "c' \<in> set (cafes d)" "cafe_pk c' = cafe_id a"
      by (metis imageE)
    with a show "x \<in> cafe_pk ` set ?cs" by force
  qed
  from assms have
    "distinct (map cafe_pk ?cs)" "distinct (map (\<lambda>c. (title c, city c)) ?cs)"
    "distinct (map assoc_pk ?as)" "distinct (map (\<lambda>a. (cafe_id a, category_id a)) ?as)"
    "distinct (map category_pk (categories d))" "distinct (map name (categories d))"
    by (simp_all add: wf_db_def distinct_map_filter)
  with fk show ?thesis unfolding res wf_db_def by simp
qed

section \<open>Lemmas on the written cafe\<close>

lemma written_okI:
  assumes "distinct (map (\<lambda>a. (cafe_id a, category_id a)) (cafe_categories d))"
    and "length (filter is_best (filter (\<lambda>a. cafe_id a = i) (cafe_categories d))) = 1"
  shows "written_ok d i"
proof -
  have inj: "inj_on (\<lambda>a. (cafe_id a, category_id a)) (set (cafe_categories d))"
    using assms(1) by (simp add: distinct_map)
  have "category_id a \<noteq> category_id b"
    if "a \<in> set (cafe_categories d)" "b \<in> set (cafe_categories d)" "cafe_id a = i" "cafe_id b = i"
       "is_best a" "\<not> is_best b" for a b
  proof
    assume "category_id a = category_id b"
    with that inj have "a = b" by (auto dest: inj_onD)
    with that show False by simp
  qed
  then have "set (map category_id (filter is_best (filter (\<lambda>a. cafe_id a = i) (cafe_categories d)))) \<inter>
        set (map category_id (filter (\<lambda>a. \<not> is_best a) (filter (\<lambda>a. cafe_id a = i) (cafe_categories d)))) = {}"
    by (auto simp: image_iff)
  with assms(2) show ?thesis by (simp add: written_ok_def Let_def)
qed

lemma length_filter_is_best:
  "map (\<lambda>a. (category_id a, is_best a)) new = association_rows best others \<Longrightarrow>
     length (filter is_best new) = 1"
proof -
  assume m: "map (\<lambda>a. (category_id a, is_best a)) new = association_rows best others"
  have "length (filter is_best new) = length (filter snd (map (\<lambda>a. (category_id a, is_best a)) new))"
    by (simp add: filter_map comp_def)
  also have "\<dots> = 1" by (simp add: m association_rows_def filter_map comp_def)
  finally show ?thesis .
qed

lemma from_orm_Lazy: "CafeResponse_from_orm Lazy d c = Inl MissingGreenlet"
  by (simp add: CafeResponse_from_orm_def relationship_def)

lemma create_cafe_unchanged:
  "create_cafe d cafe = (res, d') \<Longrightarrow> res \<noteq> Inl MissingGreenlet \<Longrightarrow> d' = d"
  by (auto simp: create_cafe_def Let_def from_orm_Lazy conflict_def split: option.splits sum.splits prod.splits)

lemma update_cafe_unchanged:
  "update_cafe d i cafe = (res, d') \<Longrightarrow> res \<noteq> Inl MissingGreenlet \<Longrightarrow> d' = d"
  by (auto simp: update_cafe_def Let_def from_orm_Lazy conflict_def split: option.splits sum.splits prod.splits)

lemma create_cafe_commit:
  assumes "create_cafe d cafe = (Inl MissingGreenlet, d')"
  obtains best others c d1 where
    "valid_categories d (request_category_names cafe) (req_best_for cafe) = Some best"
    "resolve (valid_categories d (request_category_names cafe)) (req_also_good_for cafe) = Inr others"
    "insert_cafe d cafe = Some (c, d1)"
    "insert_cafe_categories d1 (cafe_pk c) (association_rows best others) = Some d'"
  using assms
  by (auto simp: create_cafe_def Let_def from_orm_Lazy conflict_def split: option.splits sum.splits prod.splits)

lemma update_cafe_commit:
  assumes "update_cafe d i cafe = (Inl MissingGreenlet, d')"
  obtains best others c d1 where
    "find (\<lambda>c. cafe_pk c = i) (cafes d) = Some c"
    "valid_categories d (request_category_names cafe) (req_best_for cafe) = Some best"
    "resolve (valid_categories d (request_category_names cafe)) (req_also_good_for cafe) = Inr others"
    "update_cafe_row d i cafe = Some d1"
    "insert_cafe_categories (delete_cafe_categories d1 i) i (association_rows best others) = Some d'"
  using assms
  by (auto simp: update_cafe_def Let_def from_orm_Lazy conflict_def split: option.splits sum.splits prod.splits)

lemma create_cafe_rows:
  assumes ok: "create_cafe d cafe = (Inl MissingGreenlet, d')"
  obtains c best others new where
    "cafes d' = cafes d @ [c]" "title c = req_title cafe" "city c = req_city cafe"
    "cafe_pk c = next_id (map cafe_pk (cafes d))"
    "cafe_categories d' = cafe_categories d @ new"
    "map (\<lambda>a. (category_id a, is_best a)) new = association_rows best others"
    "\<forall>a \<in> set new. cafe_id a = cafe_pk c"
proof -
  from ok obtain best others c d1 where
    ins: "insert_cafe d cafe = Some (c, d1)"
    and rows: "insert_cafe_categories d1 (cafe_pk c) (association_rows best others) = Some d'"
    by (rule create_cafe_commit)
  note s = insert_cafe_Some [OF ins]
  from insert_cafe_categories_rows [OF rows] obtain new where
    new: "cafe_categories d' = cafe_categories d1 @ new"
         "map (\<lambda>a. (category_id a, is_best a)) new = association_rows best others"
         "\<forall>a \<in> set new. cafe_id a = cafe_pk c"
    by blast
  from insert_cafe_categories_frame [OF rows] s(2) have a: "cafes d' = cafes d @ [c]" by simp
  from s(1) have b: "title c = req_title cafe" "city c = req_city cafe"
    "cafe_pk c = next_id (map cafe_pk (cafes d))" by simp_all
  from new(1) s(4) have e: "cafe_categories d' = cafe_categories d @ new" by simp
  show thesis by (rule that [OF a b e new(2) new(3)])
qed

lemma create_cafe_written:
  assumes wf: "wf_db d" and ok: "create_cafe d cafe = (Inl MissingGreenlet, d')"
  shows "wf_db d'"
    and "\<exists>c. cafes d' = cafes d @ [c] \<and> title c = req_title cafe \<and> city c = req_city cafe \<and>
             written_ok d' (cafe_pk c)"
proof -
  from ok obtain best others c d1 where
    ins: "insert_cafe d cafe = Some (c, d1)"
    and rows: "insert_cafe_categories d1 (cafe_pk c) (association_rows best others) = Some d'"
    by (rule create_cafe_commit)
  note w1 = wf_insert_cafe [OF wf ins]
  show w: "wf_db d'" by (rule wf_insert_cafe_categories [OF w1(1) rows w1(2)])
  from ok obtain c' best' others' new where
    r: "cafes d' = cafes d @ [c']" "title c' = req_title cafe" "city c' = req_city cafe"
       "cafe_pk c' = next_id (map cafe_pk (cafes d))"
       "cafe_categories d' = cafe_categories d @ new"
       "map (\<lambda>a. (category_id a, is_best a)) new = association_rows best' others'"
       "\<forall>a \<in> set new. cafe_id a = cafe_pk c'"
    by (rule create_cafe_rows)
  have "cafe_pk c' \<notin> cafe_pk ` set (cafes d)"
    using r(4) next_id_fresh [of "map cafe_pk (cafes d)"] by simp
  with wf have "\<forall>a \<in> set (cafe_categories d). cafe_id a \<noteq> cafe_pk c'"
    by (metis wf_db_fk)
  then have old: "filter (\<lambda>a. cafe_id a = cafe_pk c') (cafe_categories d) = []"
    by (simp add: filter_empty_conv)
  from r(7) have "filter (\<lambda>a. cafe_id a = cafe_pk c') new = new"
    by (simp add: filter_id_conv)
  with old r(5) have "filter (\<lambda>a. cafe_id a = cafe_pk c') (cafe_categories d') = new" by simp
  with length_filter_is_best [OF r(6)]
  have "length (filter is_best (filter (\<lambda>a. cafe_id a = cafe_pk c') (cafe_categories d'))) = 1" by simp
  moreover from w have "distinct (map (\<lambda>a. (cafe_id a, category_id a)) (cafe_categories d'))"
    by (simp add: wf_db_def)
  ultimately have "written_ok d' (cafe_pk c')" by (intro written_okI)
  with r(1,2,3) show "\<exists>c. cafes d' = cafes d @ [c] \<and> title c = req_title cafe \<and> city c = req_city cafe \<and>
             written_ok d' (cafe_pk c)"
    by (intro exI [of _ c'] conjI)
qed

lemma update_cafe_rows:
  assumes ok: "update_cafe d i cafe = (Inl MissingGreenlet, d')"
  obtains best others new where
    "valid_categories d (request_category_names cafe) (req_best_for cafe) = Some best"
    "resolve (valid_categories d (request_category_names cafe)) (req_also_good_for cafe) = Inr others"
    "cafe_categories d' = filter (\<lambda>a. cafe_id a \<noteq> i) (cafe_categories d) @ new"
    "map (\<lambda>a. (category_id a, is_best a)) new = association_rows best others"
    "\<forall>a \<in> set new. cafe_id a = i"
    "map cafe_pk (cafes d') = map cafe_pk (cafes d)"
    "i \<in> cafe_pk ` set (cafes d)"
proof -
  from ok obtain best others c d1 where
    c: "find (\<lambda>c. cafe_pk c = i) (cafes d) = Some c"
    and best: "valid_categories d (request_category_names cafe) (req_best_for cafe) = Some best"
    and others: "resolve (valid_categories d (request_category_names cafe)) (req_also_good_for cafe) = Inr others"
    and upd: "update_cafe_row d i cafe = Some d1"
    and rows: "insert_cafe_categories (delete_cafe_categories d1 i) i (association_rows best others) = Some d'"
    by (rule update_cafe_commit)
  from insert_cafe_categories_rows [OF rows] obtain new where
    new: "cafe_categories d' = cafe_categories (delete_cafe_categories d1 i) @ new"
         "map (\<lambda>a. (category_id a, is_best a)) new = association_rows best others"
         "\<forall>a \<in> set new. cafe_id a = i"
    by blast
  from new(1) update_cafe_row_Some(2) [OF upd]
  have a: "cafe_categories d' = filter (\<lambda>a. cafe_id a \<noteq> i) (cafe_categories d) @ new"
    by (simp add: delete_cafe_categories_def)
  from insert_cafe_categories_frame [OF rows] update_cafe_row_Some(3) [OF upd]
  have b: "map cafe_pk (cafes d') = map cafe_pk (cafes d)"
    by (simp add: delete_cafe_categories_def)
  from find_cafe_Some [OF c] have e: "i \<in> cafe_pk ` set (cafes d)" by force
  show thesis by (rule that [OF best others a new(2) new(3) b e])
qed

lemma update_cafe_written:
  assumes wf: "wf_db d" and ok: "update_cafe d i cafe = (Inl MissingGreenlet, d')"
  shows "wf_db d'" and "written_ok d' i" and "i \<in> cafe_pk ` set (cafes d')"
proof -
  from ok obtain best others c d1 where
    c: "find (\<lambda>c. cafe_pk c = i) (cafes d) = Some c"
    and upd: "update_cafe_row d i cafe = Some d1"
    and rows: "insert_cafe_categories (delete_cafe_categories d1 i) i (association_rows best others) = Some d'"
    by (rule update_cafe_commit)
  have w1: "wf_db (delete_cafe_categories d1 i)"
    by (rule wf_delete_cafe_categories [OF wf_update_cafe_row [OF wf upd]])
  from find_cafe_Some [OF c] have "i \<in> cafe_pk ` set (cafes d)" by force
  also have "cafe_pk ` set (cafes d) = cafe_pk ` set (cafes (delete_cafe_categories d1 i))"
    using update_cafe_row_Some(3) [OF upd] by (simp add: delete_cafe_categories_def) (metis list.set_map)
  finally have i: "i \<in> cafe_pk ` set (cafes (delete_cafe_categories d1 i))" .
  show w: "wf_db d'" by (rule wf_insert_cafe_categories [OF w1 rows i])
  from i insert_cafe_categories_frame [OF rows] show "i \<in> cafe_pk ` set (cafes d')" by simp
  from ok obtain best' others' new where
    new: "cafe_categories d' = filter (\<lambda>a. cafe_id a \<noteq> i) (cafe_categories d) @ new"
         "map (\<lambda>a. (category_id a, is_best a)) new = association_rows best' others'"
         "\<forall>a \<in> set new. cafe_id a = i"
    by (rule update_cafe_rows)
  from new(3) have "filter (\<lambda>a. cafe_id a = i) new = new" by (simp add: filter_id_conv)
  with new(1) have "filter (\<lambda>a. cafe_id a = i) (cafe_categories d') = new"
    by (simp add: filter_empty_conv)
  with length_filter_is_best [OF new(2)]
  have "length (filter is_best (filter (\<lambda>a. cafe_id a = i) (cafe_categories d'))) = 1" by simp
  moreover from w have "distinct (map (\<lambda>a. (cafe_id a, category_id a)) (cafe_categories d'))"
    by (simp add: wf_db_def)
  ultimately show "written_ok d' i" by (intro written_okI)
qed

lemma create_cafe_wf:
  assumes "wf_db d"
  shows "wf_db (snd (create_cafe d cafe))"
proof (cases "create_cafe d cafe")
  case (Pair res d')
  then show ?thesis
    using assms create_cafe_unchanged [of d cafe res d'] create_cafe_written(1) [OF assms, of cafe d']
    by (cases "res = Inl MissingGreenlet") auto
qed

lemma update_cafe_wf:
  assumes "wf_db d"
  shows "wf_db (snd (update_cafe d i cafe))"
proof (cases "update_cafe d i cafe")
  case (Pair res d')
  then show ?thesis
    using assms update_cafe_unchanged [of d i cafe res d'] update_cafe_written(1) [OF assms, of i cafe d']
    by (cases "res = Inl MissingGreenlet") auto
qed

lemma reads_unchanged:
  "snd (get_cafes d city_arg best others) = d"
  "snd (recommend_similar_cafes sim argsort d i) = d"
  "snd (get_categories d) = d"
  by (simp_all add: get_cafes_def Let_def recommend_similar_cafes_def get_categories_def
           split: option.split sum.split)

section \<open>Lemmas on the invariant of every cafe\<close>

lemma every_cafe_ok_iff:
  "every_cafe_ok d \<longleftrightarrow> (\<forall>j \<in> cafe_pk ` set (cafes d). written_ok d j)"
  by (auto simp: every_cafe_ok_def list_all_iff)

lemma written_ok_cong:
  "filter (\<lambda>a. cafe_id a = j) (cafe_categories d') = filter (\<lambda>a. cafe_id a = j) (cafe_categories d) \<Longrightarrow>
     written_ok d' j = written_ok d j"
  by (simp add: written_ok_def)

lemma filter_other_cafe:
  "j \<noteq> i \<Longrightarrow>
     filter (\<lambda>a. cafe_id a = j) (filter (\<lambda>a. cafe_id a \<noteq> i) xs) = filter (\<lambda>a. cafe_id a = j) xs"
  by (induction xs) auto

lemma create_cafe_every_ok:
  assumes wf: "wf_db d" and ev: "every_cafe_ok d"
  shows "every_cafe_ok (snd (create_cafe d cafe))"
proof (cases "create_cafe d cafe")
  case (Pair res d')
  show ?thesis
  proof (cases "res = Inl MissingGreenlet")
    case False
    from create_cafe_unchanged [OF Pair False] have "d' = d" .
    with Pair ev show ?thesis by simp
  next
    case True
    with Pair have ok: "create_cafe d cafe = (Inl MissingGreenlet, d')" by simp
    from ok obtain c best others new where
      r: "cafes d' = cafes d @ [c]" "cafe_pk c = next_id (map cafe_pk (cafes d))"
         "cafe_categories d' = cafe_categories d @ new" "\<forall>a \<in> set new. cafe_id a = cafe_pk c"
      by (rule create_cafe_rows)
    from create_cafe_written(2) [OF wf ok] obtain c0 where
      c0: "cafes d' = cafes d @ [c0]" "written_ok d' (cafe_pk c0)" by blast
    from c0(1) r(1) have "c0 = c" by simp
    with c0(2) have new_ok: "written_ok d' (cafe_pk c)" by simp
    have fresh: "cafe_pk c \<notin> cafe_pk ` set (cafes d)"
      using r(2) next_id_fresh [of "map cafe_pk (cafes d)"] by simp
    have "written_ok d' j" if j: "j \<in> cafe_pk ` set (cafes d)" for j
    proof -
      have "j \<noteq> cafe_pk c"
      proof
        assume "j = cafe_pk c"
        with j have "cafe_pk c \<in> cafe_pk ` set (cafes d)" by (simp only:)
        with fresh show False ..
      qed
      with r(4) have "\<forall>a \<in> set new. cafe_id a \<noteq> j" by simp
      then have "filter (\<lambda>a. cafe_id a = j) new = []" by (simp add: filter_empty_conv)
      with r(3) have "filter (\<lambda>a. cafe_id a = j) (cafe_categories d') =
                      filter (\<lambda>a. cafe_id a = j) (cafe_categories d)" by simp
      moreover from ev j have "written_ok d j" unfolding every_cafe_ok_iff by blast
      ultimately show ?thesis using written_ok_cong [of j d' d] by simp
    qed
    then have others_ok: "\<forall>j \<in> cafe_pk ` set (cafes d). written_ok d' j" by blast
    have "cafe_pk ` set (cafes d') = insert (cafe_pk c) (cafe_pk ` set (cafes d))"
      using r(1) by simp
    with new_ok others_ok have "every_cafe_ok d'" by (simp add: every_cafe_ok_iff)
    with Pair show ?thesis by simp
  qed
qed

lemma update_cafe_every_ok:
  assumes wf: "wf_db d" and ev: "every_cafe_ok d"
  shows "every_cafe_ok (snd (update_cafe d i cafe))"
proof (cases "update_cafe d i cafe")
  case (Pair res d')
  show ?thesis
  proof (cases "res = Inl MissingGreenlet")
    case False
    from update_cafe_unchanged [OF Pair False] have "d' = d" .
    with Pair ev show ?thesis by simp
  next
    case True
    with Pair have ok: "update_cafe d i cafe = (Inl MissingGreenlet, d')" by simp
    from ok obtain best others new where
      r: "cafe_categories d' = filter (\<lambda>a. cafe_id a \<noteq> i) (cafe_categories d) @ new"
         "\<forall>a \<in> set new. cafe_id a = i" "map cafe_pk (cafes d') = map cafe_pk (cafes d)"
      by (rule update_cafe_rows)
    from r(3) have pks: "cafe_pk ` set (cafes d') = cafe_pk ` set (cafes d)" by (metis list.set_map)
    have "written_ok d' j" if j: "j \<in> cafe_pk ` set (cafes d)" for j
    proof (cases "j = i")
      case True
      with update_cafe_written(2) [OF wf ok] show ?thesis by simp
    next
      case False
      with r(2) have "\<forall>a \<in> set new. cafe_id a \<noteq> j" by simp
      then have "filter (\<lambda>a. cafe_id a = j) new = []" by (simp add: filter_empty_conv)
      moreover from False have "filter (\<lambda>a. cafe_id a = j) (filter (\<lambda>a. cafe_id a \<noteq> i) (cafe_categories d)) =
                       filter (\<lambda>a. cafe_id a = j) (cafe_categories d)"
        by (rule filter_other_cafe)
      ultimately have "filter (\<lambda>a. cafe_id a = j) (cafe_categories d') =
                      filter (\<lambda>a. cafe_id a = j) (cafe_categories d)" using r(1) by simp
      moreover from ev j have "written_ok d j" unfolding every_cafe_ok_iff by blast
      ultimately show ?thesis using written_ok_cong [of j d' d] by simp
    qed
    then have "\<forall>j \<in> cafe_pk ` set (cafes d). written_ok d' j" by blast
    with pks have "every_cafe_ok d'" by (simp add: every_cafe_ok_iff)
    with Pair show ?thesis by simp
  qed
qed

lemma delete_cafe_every_ok:
  assumes ev: "every_cafe_ok d"
  shows "every_cafe_ok (snd (delete_cafe d i))"
proof (cases "find (\<lambda>c. cafe_pk c = i) (cafes d)")
  case None
  with ev show ?thesis by (simp add: delete_cafe_def)
next
  case (Some c)
  from find_cafe_Some [OF Some] have i: "cafe_pk c = i" by (rule conjunct2)
  let ?d' = "d\<lparr>cafes := filter (\<lambda>c. cafe_pk c \<noteq> i) (cafes d),
                cafe_categories := filter (\<lambda>a. cafe_id a \<noteq> i) (cafe_categories d)\<rparr>"
  have res: "snd (delete_cafe d i) = ?d'"
    using Some i by (simp add: delete_cafe_def Let_def delete_cafe_categories_def)
  have "written_ok ?d' j" if j: "j \<in> cafe_pk ` set (cafes ?d')" for j
  proof -
    from j have ji: "j \<noteq> i" and jd: "j \<in> cafe_pk ` set (cafes d)" by auto
    have "cafe_categories ?d' = filter (\<lambda>a. cafe_id a \<noteq> i) (cafe_categories d)" by simp
    with filter_other_cafe [OF ji, of "cafe_categories d"]
    have "filter (\<lambda>a. cafe_id a = j) (cafe_categories ?d') =
                  filter (\<lambda>a. cafe_id a = j) (cafe_categories d)"
      by (simp only:)
    moreover from ev jd have "written_ok d j" unfolding every_cafe_ok_iff by blast
    ultimately show ?thesis using written_ok_cong [of j ?d' d] by simp
  qed
  then have "every_cafe_ok ?d'" by (simp only: every_cafe_ok_iff) blast
  with res show ?thesis by simp
qed

lemma every_cafe_ok_empty:
  "every_cafe_ok \<lparr> cafes = [], categories = cs, cafe_categories = [] \<rparr>"
  by (simp add: every_cafe_ok_def)

section \<open>Lemmas on LIKE and the filters\<close>











text \<open>
  A query with a category filter returns no cafe, whatever the store holds: cafe A is best
  for wifi and the query for best_for wifi does not return it.
\<close>

lemma selected_cafes_category_filter:
  "truthy best \<or> truthy others \<Longrightarrow> selected_cafes d city_arg best others = []"
  by (cases others)
     (auto simp: selected_cafes_def best_for_filter_def also_good_for_filter_def is_best_is_def)

lemma category_filter_returns_nothing:
  "truthy best \<or> truthy others \<Longrightarrow> get_cafes d city_arg best others = (Inr rs, d') \<Longrightarrow> rs = []"
  by (auto simp: get_cafes_def Let_def selected_cafes_category_filter split: if_splits)

lemma best_for_wifi_returns_nothing:
  "get_cafes paris_db None (Some ''wifi'') None = (Inr [], paris_db)"
  by code_simp

section \<open>Lemmas on the documents\<close>

lemma cafe_text_Lazy: "cafe_text Lazy d c = Inl MissingGreenlet"
  by (simp add: cafe_text_def best_for_def relationship_def)

text \<open>
  With the relationships loaded, which \<^verbatim>\<open>recommend_similar_cafes\<close> never does, the
  f-string would raise \<^verbatim>\<open>TypeError\<close> on a cafe with an also_good_for category and print
  the \<^verbatim>\<open>repr\<close> of the best category otherwise.
\<close>

lemma cafe_text_with_loaded_relationships:
  "cafe_text Selectinload pair_db cafe_A = Inl TypeError \<and>
   cafe_text Selectinload twin_db (cafes twin_db ! 0) =
     Inr (''calm <Category(id=1, name='' @ [CHR 0x27] @ ''wifi'' @ [CHR 0x27] @ '')> '')"
  by code_simp

section \<open>Filtering cafes\<close>




section \<open>A category named in both fields\<close>

text \<open>
  C2. Creating cafe B with best_for wifi and also_good_for [wifi], and updating cafe A
  with the same two fields, both fail, but with the error of the title and city
  constraint: nothing checks the two fields against each other, the two association rows
  collide on \<^verbatim>\<open>uq_cafe_category\<close> and the handler of \<^verbatim>\<open>IntegrityError\<close> reports every
  constraint as a cafe that already exists.
\<close>

theorem duplicate_category_reported_as_existing_cafe:
  "create_cafe paris_db cafe_B = (Inl (HTTPException 400 Cafe_already_exists), paris_db) \<and>
   update_cafe paris_db 1 (cafe_B\<lparr>req_title := ''A''\<rparr>) =
     (Inl (HTTPException 400 Cafe_already_exists), paris_db)"
  by code_simp

section \<open>The documents of the recommender\<close>

text \<open>
  C3. No document is built for cafe A in a corpus of two cafes: the cafes come from
  \<^verbatim>\<open>select(Cafe)\<close> without \<^verbatim>\<open>selectinload\<close>, \<^verbatim>\<open>cafe.best_for\<close> reads a relationship that
  is not loaded, and the request ends with \<^verbatim>\<open>MissingGreenlet\<close>.
\<close>

theorem no_document_is_built:
  "cafe_text Lazy pair_db cafe_A = Inl MissingGreenlet \<and>
   texts Lazy pair_db (cafes pair_db) = Inl MissingGreenlet \<and>
   recommend_similar_cafes cosine_similarity argsort pair_db 1 = (Inl MissingGreenlet, pair_db)"
  by (simp add: cafe_text_Lazy recommend_similar_cafes_def pair_db_def cafe_A_def)

section \<open>The result of a recommendation\<close>

text \<open>
  C4. For a target that exists, the recommendation is the empty list when the corpus has
  at most one cafe, and the error \<^verbatim>\<open>MissingGreenlet\<close> when it has two or more: no list
  of cafes is returned then.
\<close>

theorem recommend_raises_for_two_or_more:
  assumes "find (\<lambda>c. cafe_pk c = i) (cafes d) \<noteq> None"
  shows "(length (cafes d) \<le> 1 \<longrightarrow> recommend_similar_cafes cosine_similarity argsort d i = (Inr [], d)) \<and>
         (2 \<le> length (cafes d) \<longrightarrow>
            recommend_similar_cafes cosine_similarity argsort d i = (Inl MissingGreenlet, d))"
proof (intro conjI impI)
  assume "length (cafes d) \<le> 1"
  with assms show "recommend_similar_cafes cosine_similarity argsort d i = (Inr [], d)"
    by (auto simp: recommend_similar_cafes_def)
next
  assume two: "2 \<le> length (cafes d)"
  then obtain c cs where "cafes d = c # cs" by (cases "cafes d") auto
  then have "texts Lazy d (cafes d) = Inl MissingGreenlet" by (simp add: cafe_text_Lazy)
  with assms two show "recommend_similar_cafes cosine_similarity argsort d i = (Inl MissingGreenlet, d)"
    by (auto simp: recommend_similar_cafes_def)
qed

text \<open>
  The theorem at the store of two cafes and at the store of one, with a similarity and a
  sort in the place of the library functions, which neither request reaches.
\<close>

theorem recommend_raises_for_two_or_more_witness:
  "find (\<lambda>c. cafe_pk c = 1) (cafes twin_db) \<noteq> None \<and> 2 \<le> length (cafes twin_db) \<and>
   recommend_similar_cafes (\<lambda>ts. map (\<lambda>a. map (\<lambda>b. if a = b then (1::nat) else 0) ts) ts)
     (\<lambda>row. sort_key (\<lambda>j. row ! j) [0..<length row]) twin_db 1 = (Inl MissingGreenlet, twin_db) \<and>
   find (\<lambda>c. cafe_pk c = 1) (cafes paris_db) \<noteq> None \<and> length (cafes paris_db) \<le> 1 \<and>
   recommend_similar_cafes (\<lambda>ts. map (\<lambda>a. map (\<lambda>b. if a = b then (1::nat) else 0) ts) ts)
     (\<lambda>row. sort_key (\<lambda>j. row ! j) [0..<length row]) paris_db 1 = (Inr [], paris_db)"
proof -
  have a: "find (\<lambda>c. cafe_pk c = 1) (cafes twin_db) \<noteq> None" and b: "2 \<le> length (cafes twin_db)"
    and c: "find (\<lambda>c. cafe_pk c = 1) (cafes paris_db) \<noteq> None" and e: "length (cafes paris_db) \<le> 1"
    by code_simp+
  note t = recommend_raises_for_two_or_more
    [OF a, of "\<lambda>ts. map (\<lambda>a. map (\<lambda>b. if a = b then (1::nat) else 0) ts) ts"
              "\<lambda>row. sort_key (\<lambda>j. row ! j) [0..<length row]"]
  note u = recommend_raises_for_two_or_more
    [OF c, of "\<lambda>ts. map (\<lambda>a. map (\<lambda>b. if a = b then (1::nat) else 0) ts) ts"
              "\<lambda>row. sort_key (\<lambda>j. row ! j) [0..<length row]"]
  from t b have t': "recommend_similar_cafes (\<lambda>ts. map (\<lambda>a. map (\<lambda>b. if a = b then (1::nat) else 0) ts) ts)
     (\<lambda>row. sort_key (\<lambda>j. row ! j) [0..<length row]) twin_db 1 = (Inl MissingGreenlet, twin_db)"
    by (rule conjunct2 [THEN mp])
  from u e have u': "recommend_similar_cafes (\<lambda>ts. map (\<lambda>a. map (\<lambda>b. if a = b then (1::nat) else 0) ts) ts)
     (\<lambda>row. sort_key (\<lambda>j. row ! j) [0..<length row]) paris_db 1 = (Inr [], paris_db)"
    by (rule conjunct1 [THEN mp])
  from a b t' c e u' show ?thesis by (intro conjI)
qed

section \<open>The association rows after a write\<close>

text \<open>
  C5. A write takes effect exactly when the request ends with \<^verbatim>\<open>MissingGreenlet\<close>: the
  transaction is committed and only the response fails. In a store that satisfies the
  constraints of the schema, a create or an update that takes effect leaves the written
  cafe with exactly one row with is_best true, whose category is the category of none of
  its rows with is_best false. Every operation, whether it takes effect or fails, leaves
  the constraints in force, among them that no cafe has two rows for one category; and
  when every cafe of the store has exactly one such row before an operation, every cafe
  has after it.
\<close>

theorem writes_keep_one_best_and_unique_rows:
  assumes "wf_db d"
  shows "(\<forall>d'. create_cafe d cafe = (Inl MissingGreenlet, d') \<longrightarrow>
            (\<exists>c. cafes d' = cafes d @ [c] \<and> title c = req_title cafe \<and> city c = req_city cafe \<and>
                 written_ok d' (cafe_pk c))) \<and>
         (\<forall>d'. update_cafe d i cafe = (Inl MissingGreenlet, d') \<longrightarrow>
            i \<in> cafe_pk ` set (cafes d') \<and> written_ok d' i) \<and>
         (fst (create_cafe d cafe) \<noteq> Inl MissingGreenlet \<longrightarrow> snd (create_cafe d cafe) = d) \<and>
         (fst (update_cafe d i cafe) \<noteq> Inl MissingGreenlet \<longrightarrow> snd (update_cafe d i cafe) = d) \<and>
         wf_db (snd (create_cafe d cafe)) \<and>
         wf_db (snd (update_cafe d i cafe)) \<and>
         wf_db (snd (delete_cafe d i)) \<and>
         wf_db (snd (get_cafes d city_arg best others)) \<and>
         wf_db (snd (recommend_similar_cafes sim argsort d i)) \<and>
         wf_db (snd (get_categories d)) \<and>
         (every_cafe_ok d \<longrightarrow>
            every_cafe_ok (snd (create_cafe d cafe)) \<and>
            every_cafe_ok (snd (update_cafe d i cafe)) \<and>
            every_cafe_ok (snd (delete_cafe d i)) \<and>
            every_cafe_ok (snd (get_cafes d city_arg best others)) \<and>
            every_cafe_ok (snd (recommend_similar_cafes sim argsort d i)) \<and>
            every_cafe_ok (snd (get_categories d)))"
proof (intro conjI allI impI)
  fix d' assume "create_cafe d cafe = (Inl MissingGreenlet, d')"
  then show "\<exists>c. cafes d' = cafes d @ [c] \<and> title c = req_title cafe \<and> city c = req_city cafe \<and>
                 written_ok d' (cafe_pk c)"
    by (rule create_cafe_written(2) [OF assms])
next
  fix d' assume ok: "update_cafe d i cafe = (Inl MissingGreenlet, d')"
  then show "written_ok d' i" by (rule update_cafe_written(2) [OF assms])
  from ok show "i \<in> cafe_pk ` set (cafes d')" by (rule update_cafe_written(3) [OF assms])
next
  assume "fst (create_cafe d cafe) \<noteq> Inl MissingGreenlet"
  then show "snd (create_cafe d cafe) = d"
    using create_cafe_unchanged [of d cafe "fst (create_cafe d cafe)" "snd (create_cafe d cafe)"] by simp
next
  assume "fst (update_cafe d i cafe) \<noteq> Inl MissingGreenlet"
  then show "snd (update_cafe d i cafe) = d"
    using update_cafe_unchanged [of d i cafe "fst (update_cafe d i cafe)" "snd (update_cafe d i cafe)"] by simp
next
  show "wf_db (snd (create_cafe d cafe))" by (rule create_cafe_wf [OF assms])
  show "wf_db (snd (update_cafe d i cafe))" by (rule update_cafe_wf [OF assms])
  show "wf_db (snd (delete_cafe d i))" by (rule wf_delete_cafe [OF assms])
  show "wf_db (snd (get_cafes d city_arg best others))" using assms by (simp add: reads_unchanged)
  show "wf_db (snd (recommend_similar_cafes sim argsort d i))" using assms by (simp add: reads_unchanged)
  show "wf_db (snd (get_categories d))" using assms by (simp add: reads_unchanged)
next
  assume ev: "every_cafe_ok d"
  show "every_cafe_ok (snd (create_cafe d cafe))" by (rule create_cafe_every_ok [OF assms ev])
  show "every_cafe_ok (snd (update_cafe d i cafe))" by (rule update_cafe_every_ok [OF assms ev])
  show "every_cafe_ok (snd (delete_cafe d i))" by (rule delete_cafe_every_ok [OF ev])
  show "every_cafe_ok (snd (get_cafes d city_arg best others))" using ev by (simp add: reads_unchanged)
  show "every_cafe_ok (snd (recommend_similar_cafes sim argsort d i))" using ev by (simp add: reads_unchanged)
  show "every_cafe_ok (snd (get_categories d))" using ev by (simp add: reads_unchanged)
qed

text \<open>
  The theorem at the example store: cafe C is created, cafe A is updated and deleted, and
  the request for cafe B, which names wifi twice, changes nothing.
\<close>

theorem writes_keep_one_best_and_unique_rows_witness:
  "wf_db paris_db \<and> every_cafe_ok paris_db \<and>
   fst (create_cafe paris_db cafe_C) = Inl MissingGreenlet \<and>
   cafes (snd (create_cafe paris_db cafe_C)) =
     cafes paris_db @ [\<lparr> cafe_pk = 2, title = ''C'', city = ''Lyon'', description = ''bright'', image_url = None \<rparr>] \<and>
   written_ok (snd (create_cafe paris_db cafe_C)) 2 \<and>
   wf_db (snd (create_cafe paris_db cafe_C)) \<and>
   every_cafe_ok (snd (create_cafe paris_db cafe_C)) \<and>
   fst (update_cafe paris_db 1 cafe_C) = Inl MissingGreenlet \<and>
   written_ok (snd (update_cafe paris_db 1 cafe_C)) 1 \<and>
   wf_db (snd (update_cafe paris_db 1 cafe_C)) \<and>
   every_cafe_ok (snd (update_cafe paris_db 1 cafe_C)) \<and>
   fst (create_cafe paris_db cafe_B) \<noteq> Inl MissingGreenlet \<and>
   snd (create_cafe paris_db cafe_B) = paris_db \<and>
   wf_db (snd (delete_cafe paris_db 1)) \<and>
   every_cafe_ok (snd (delete_cafe paris_db 1))"
proof -
  have wf: "wf_db paris_db" and ev: "every_cafe_ok paris_db" by code_simp+
  have c: "fst (create_cafe paris_db cafe_C) = Inl MissingGreenlet"
    and u: "fst (update_cafe paris_db 1 cafe_C) = Inl MissingGreenlet"
    and b: "fst (create_cafe paris_db cafe_B) \<noteq> Inl MissingGreenlet" by code_simp+
  have cs: "cafes (snd (create_cafe paris_db cafe_C)) =
     cafes paris_db @ [\<lparr> cafe_pk = 2, title = ''C'', city = ''Lyon'', description = ''bright'', image_url = None \<rparr>]"
    by code_simp
  from c have c': "create_cafe paris_db cafe_C = (Inl MissingGreenlet, snd (create_cafe paris_db cafe_C))"
    by (metis prod.collapse)
  from u have u': "update_cafe paris_db 1 cafe_C = (Inl MissingGreenlet, snd (update_cafe paris_db 1 cafe_C))"
    by (metis prod.collapse)
  note t = writes_keep_one_best_and_unique_rows
    [OF wf, of cafe_C 1 None None None "\<lambda>ts. ([] :: nat list list)" "\<lambda>row. []"]
  note t2 = writes_keep_one_best_and_unique_rows
    [OF wf, of cafe_B 1 None None None "\<lambda>ts. ([] :: nat list list)" "\<lambda>row. []"]
  from t c' obtain c0 where c0: "cafes (snd (create_cafe paris_db cafe_C)) = cafes paris_db @ [c0]"
    "written_ok (snd (create_cafe paris_db cafe_C)) (cafe_pk c0)" by blast
  from c0(1) cs have "c0 = \<lparr> cafe_pk = 2, title = ''C'', city = ''Lyon'', description = ''bright'', image_url = None \<rparr>"
    by simp
  then have "cafe_pk c0 = 2" by simp
  with c0(2) have w2: "written_ok (snd (create_cafe paris_db cafe_C)) 2" by simp
  from t u' have w1: "written_ok (snd (update_cafe paris_db 1 cafe_C)) 1" by blast
  from t2 b have sb: "snd (create_cafe paris_db cafe_B) = paris_db" by blast
  from t ev have rest: "wf_db (snd (create_cafe paris_db cafe_C))" "every_cafe_ok (snd (create_cafe paris_db cafe_C))"
    "wf_db (snd (update_cafe paris_db 1 cafe_C))" "every_cafe_ok (snd (update_cafe paris_db 1 cafe_C))"
    "wf_db (snd (delete_cafe paris_db 1))" "every_cafe_ok (snd (delete_cafe paris_db 1))"
    by blast+
  from wf ev c cs w2 u w1 b sb rest show ?thesis by (intro conjI)
qed

section \<open>Creating a cafe whose title and city are taken\<close>

text \<open>
  C6, amended. A create request whose (title, city) pair is already in the store fails and
  leaves the store as it was. The error is the conflict of the title and city constraint
  when every category name of the request is known; otherwise the request has already
  failed at the category check.
\<close>

theorem create_existing_title_city_fails:
  assumes "(req_title cafe, req_city cafe) \<in> set (map (\<lambda>c. (title c, city c)) (cafes d))"
  shows "\<exists>e. create_cafe d cafe = (Inl e, d) \<and>
             (request_category_names cafe \<subseteq> name ` set (categories d) \<longrightarrow>
                e = HTTPException 400 Cafe_already_exists)"
proof -
  let ?valid = "valid_categories d (request_category_names cafe)"
  have ins: "insert_cafe d cafe = None"
    using assms by (simp add: insert_cafe_def)
  show ?thesis
  proof (cases "?valid (req_best_for cafe)")
    case None
    then have "\<not> request_category_names cafe \<subseteq> name ` set (categories d)"
      by (auto simp: valid_categories_None request_category_names_def)
    with None show ?thesis by (simp add: create_cafe_def)
  next
    case (Some best)
    show ?thesis
    proof (cases "resolve ?valid (req_also_good_for cafe)")
      case (Inl m)
      then have "m \<in> set (req_also_good_for cafe)" "?valid m = None"
        by (auto simp: resolve_Inl find_Some_iff)
      then have "\<not> request_category_names cafe \<subseteq> name ` set (categories d)"
        by (auto simp: valid_categories_None request_category_names_def)
      with Some Inl show ?thesis by (simp add: create_cafe_def)
    next
      case (Inr others)
      with Some ins show ?thesis by (simp add: create_cafe_def conflict_def)
    qed
  qed
qed

text \<open>The theorem at the example store, for a second cafe A in Paris.\<close>

theorem create_existing_title_city_fails_witness:
  "(req_title cafe_A_again, req_city cafe_A_again) \<in> set (map (\<lambda>c. (title c, city c)) (cafes paris_db)) \<and>
   request_category_names cafe_A_again \<subseteq> name ` set (categories paris_db) \<and>
   create_cafe paris_db cafe_A_again = (Inl (HTTPException 400 Cafe_already_exists), paris_db)"
proof -
  have h: "(req_title cafe_A_again, req_city cafe_A_again) \<in> set (map (\<lambda>c. (title c, city c)) (cafes paris_db))"
    by code_simp
  have k: "request_category_names cafe_A_again \<subseteq> name ` set (categories paris_db)"
    by code_simp
  from create_existing_title_city_fails [OF h] k h show ?thesis by auto
qed

text \<open>
  The same title and city with the unknown category garden: the request fails at the
  category check, before any insert, with the error that names garden.
\<close>

theorem create_existing_title_city_counterexample:
  "(req_title (cafe_A_again\<lparr>req_best_for := ''garden''\<rparr>), req_city (cafe_A_again\<lparr>req_best_for := ''garden''\<rparr>))
     \<in> set (map (\<lambda>c. (title c, city c)) (cafes paris_db)) \<and>
   create_cafe paris_db (cafe_A_again\<lparr>req_best_for := ''garden''\<rparr>) =
     (Inl (HTTPException 400 (Category_does_not_exist ''garden'')), paris_db)"
  by code_simp

section \<open>The association rows after an update\<close>

text \<open>
  C7. After an update that takes effect (the request then ends with \<^verbatim>\<open>MissingGreenlet\<close>,
  after the commit), the rows of the cafe are, in order, one row with is_best true for the
  category named best_for and one row with is_best false for each name of also_good_for;
  no earlier row of the cafe is left, and the rows of every other cafe are the rows they
  were.
\<close>

theorem update_replaces_associations:
  assumes "update_cafe d i cafe = (Inl MissingGreenlet, d')"
  shows "\<exists>best others.
           best \<in> set (categories d) \<and> name best = req_best_for cafe \<and>
           list_all2 (\<lambda>n cat. cat \<in> set (categories d) \<and> name cat = n) (req_also_good_for cafe) others \<and>
           map (\<lambda>a. (category_id a, is_best a)) (filter (\<lambda>a. cafe_id a = i) (cafe_categories d')) =
             (category_pk best, True) # map (\<lambda>cat. (category_pk cat, False)) others \<and>
           filter (\<lambda>a. cafe_id a \<noteq> i) (cafe_categories d') = filter (\<lambda>a. cafe_id a \<noteq> i) (cafe_categories d)"
proof -
  let ?valid = "valid_categories d (request_category_names cafe)"
  from assms obtain best others new where
    best: "?valid (req_best_for cafe) = Some best"
    and others: "resolve ?valid (req_also_good_for cafe) = Inr others"
    and rows: "cafe_categories d' = filter (\<lambda>a. cafe_id a \<noteq> i) (cafe_categories d) @ new"
    and new: "map (\<lambda>a. (category_id a, is_best a)) new = association_rows best others"
             "\<forall>a \<in> set new. cafe_id a = i"
    by (rule update_cafe_rows)
  from new(2) have keep: "filter (\<lambda>a. cafe_id a = i) new = new" and drop: "filter (\<lambda>a. cafe_id a \<noteq> i) new = []"
    by (simp_all add: filter_id_conv filter_empty_conv)
  from rows keep have "filter (\<lambda>a. cafe_id a = i) (cafe_categories d') = new"
    by (simp add: filter_empty_conv)
  with new(1) have a: "map (\<lambda>a. (category_id a, is_best a)) (filter (\<lambda>a. cafe_id a = i) (cafe_categories d')) =
             (category_pk best, True) # map (\<lambda>cat. (category_pk cat, False)) others"
    by (simp add: association_rows_def)
  from rows drop have b: "filter (\<lambda>a. cafe_id a \<noteq> i) (cafe_categories d') = filter (\<lambda>a. cafe_id a \<noteq> i) (cafe_categories d)"
    by simp
  from valid_categories_Some [OF best] have c: "best \<in> set (categories d)" "name best = req_best_for cafe"
    by simp_all
  have e: "list_all2 (\<lambda>n cat. cat \<in> set (categories d) \<and> name cat = n) (req_also_good_for cafe) others"
    by (rule list_all2_mono [OF resolve_Inr [OF others]]) (simp add: valid_categories_Some)
  from c e a b show ?thesis by (intro exI [of _ best] exI [of _ others] conjI)
qed

text \<open>The theorem at the example store: cafe A becomes best for quiet and also good for wifi.\<close>

theorem update_replaces_associations_witness:
  "fst (update_cafe paris_db 1 cafe_C) = Inl MissingGreenlet \<and>
   map (\<lambda>a. (category_id a, is_best a))
       (filter (\<lambda>a. cafe_id a = 1) (cafe_categories (snd (update_cafe paris_db 1 cafe_C)))) =
     [(2, True), (1, False)] \<and>
   (\<exists>best others.
      best \<in> set (categories paris_db) \<and> name best = req_best_for cafe_C \<and>
      list_all2 (\<lambda>n cat. cat \<in> set (categories paris_db) \<and> name cat = n) (req_also_good_for cafe_C) others \<and>
      map (\<lambda>a. (category_id a, is_best a))
          (filter (\<lambda>a. cafe_id a = 1) (cafe_categories (snd (update_cafe paris_db 1 cafe_C)))) =
        (category_pk best, True) # map (\<lambda>cat. (category_pk cat, False)) others \<and>
      filter (\<lambda>a. cafe_id a \<noteq> 1) (cafe_categories (snd (update_cafe paris_db 1 cafe_C))) =
        filter (\<lambda>a. cafe_id a \<noteq> 1) (cafe_categories paris_db))"
proof -
  have f: "fst (update_cafe paris_db 1 cafe_C) = Inl MissingGreenlet" by code_simp
  then have u: "update_cafe paris_db 1 cafe_C = (Inl MissingGreenlet, snd (update_cafe paris_db 1 cafe_C))"
    by (metis prod.collapse)
  have rows: "map (\<lambda>a. (category_id a, is_best a))
       (filter (\<lambda>a. cafe_id a = 1) (cafe_categories (snd (update_cafe paris_db 1 cafe_C)))) =
     [(2, True), (1, False)]" by code_simp
  from update_replaces_associations [OF u] f rows show ?thesis by simp
qed

section \<open>Unknown category names\<close>

text \<open>
  C8, amended. A filter query that names unknown categories (through a non-empty best_for
  or through also_good_for) fails with the error that lists exactly the unknown names. A
  create request, and an update request for a cafe that exists, fail with the error that
  names the first unknown name, in the order best_for, then also_good_for. The store is
  unchanged in all three.
\<close>

theorem missing_categories_reported:
  "(filter_category_names best also - name ` set (categories d) \<noteq> {} \<longrightarrow>
      get_cafes d city_arg best also =
        (Inl (HTTPException 400
               (Categories_do_not_exist (filter_category_names best also - name ` set (categories d)))), d)) \<and>
   (find (\<lambda>n. n \<notin> name ` set (categories d)) (req_best_for cafe # req_also_good_for cafe) = Some n \<longrightarrow>
      create_cafe d cafe = (Inl (HTTPException 400 (Category_does_not_exist n)), d)) \<and>
   (find (\<lambda>n. n \<notin> name ` set (categories d)) (req_best_for cafe # req_also_good_for cafe) = Some n \<and>
    i \<in> cafe_pk ` set (cafes d) \<longrightarrow>
      update_cafe d i cafe = (Inl (HTTPException 400 (Category_does_not_exist n)), d))"
proof (intro conjI impI)
  let ?names = "filter_category_names best also"
  assume m: "?names - name ` set (categories d) \<noteq> {}"
  have eq: "?names - name ` {k \<in> set (categories d). name k \<in> ?names} = ?names - name ` set (categories d)"
    by auto
  from m have "?names \<noteq> {}" by auto
  with m show "get_cafes d city_arg best also =
        (Inl (HTTPException 400 (Categories_do_not_exist (?names - name ` set (categories d)))), d)"
    unfolding get_cafes_def Let_def eq by simp
next
  let ?valid = "valid_categories d (request_category_names cafe)"
  assume f: "find (\<lambda>n. n \<notin> name ` set (categories d)) (req_best_for cafe # req_also_good_for cafe) = Some n"
  have f': "find (\<lambda>n. ?valid n = None) (req_best_for cafe # req_also_good_for cafe) = Some n"
    using f find_valid_known [of "req_best_for cafe # req_also_good_for cafe" "request_category_names cafe" d]
    by (simp add: request_category_names_def)
  show "create_cafe d cafe = (Inl (HTTPException 400 (Category_does_not_exist n)), d)"
  proof (cases "?valid (req_best_for cafe)")
    case None
    with f' show ?thesis by (simp add: create_cafe_def)
  next
    case (Some best)
    with f' have "resolve ?valid (req_also_good_for cafe) = Inl n"
      by (auto simp: resolve_Inl)
    with Some show ?thesis by (simp add: create_cafe_def)
  qed
next
  let ?valid = "valid_categories d (request_category_names cafe)"
  assume a: "find (\<lambda>n. n \<notin> name ` set (categories d)) (req_best_for cafe # req_also_good_for cafe) = Some n \<and>
    i \<in> cafe_pk ` set (cafes d)"
  then have f: "find (\<lambda>n. n \<notin> name ` set (categories d)) (req_best_for cafe # req_also_good_for cafe) = Some n"
    and i: "i \<in> cafe_pk ` set (cafes d)" by auto
  have f': "find (\<lambda>n. ?valid n = None) (req_best_for cafe # req_also_good_for cafe) = Some n"
    using f find_valid_known [of "req_best_for cafe # req_also_good_for cafe" "request_category_names cafe" d]
    by (simp add: request_category_names_def)
  from i obtain c where c: "find (\<lambda>c. cafe_pk c = i) (cafes d) = Some c"
    by (cases "find (\<lambda>c. cafe_pk c = i) (cafes d)") (auto simp: find_None_iff)
  show "update_cafe d i cafe = (Inl (HTTPException 400 (Category_does_not_exist n)), d)"
  proof (cases "?valid (req_best_for cafe)")
    case None
    with f' c show ?thesis by (simp add: update_cafe_def)
  next
    case (Some best)
    with f' have "resolve ?valid (req_also_good_for cafe) = Inl n"
      by (auto simp: resolve_Inl)
    with Some c show ?thesis by (simp add: update_cafe_def)
  qed
qed

text \<open>The theorem at the example store, with the unknown names garden and view.\<close>

theorem missing_categories_reported_witness:
  "filter_category_names (Some ''garden'') (Some [''wifi'', ''view'']) - name ` set (categories paris_db) =
     {''garden'', ''view''} \<and>
   get_cafes paris_db None (Some ''garden'') (Some [''wifi'', ''view'']) =
     (Inl (HTTPException 400 (Categories_do_not_exist {''garden'', ''view''})), paris_db) \<and>
   find (\<lambda>n. n \<notin> name ` set (categories paris_db)) (req_best_for cafe_D # req_also_good_for cafe_D) =
     Some ''garden'' \<and>
   create_cafe paris_db cafe_D = (Inl (HTTPException 400 (Category_does_not_exist ''garden'')), paris_db) \<and>
   1 \<in> cafe_pk ` set (cafes paris_db) \<and>
   update_cafe paris_db 1 cafe_D = (Inl (HTTPException 400 (Category_does_not_exist ''garden'')), paris_db)"
proof -
  have m: "filter_category_names (Some ''garden'') (Some [''wifi'', ''view'']) - name ` set (categories paris_db) =
     {''garden'', ''view''}" by code_simp
  have f: "find (\<lambda>n. n \<notin> name ` set (categories paris_db)) (req_best_for cafe_D # req_also_good_for cafe_D) =
     Some ''garden''" by code_simp
  have i: "1 \<in> cafe_pk ` set (cafes paris_db)" by code_simp
  note t = missing_categories_reported [of "Some ''garden''" "Some [''wifi'', ''view'']" paris_db None cafe_D "''garden''" 1]
  from t m f i show ?thesis by simp
qed

text \<open>
  The create request names two unknown categories and the error names the first only; and
  a filter query whose best_for is the empty string, which no category is named, succeeds.
\<close>

theorem missing_categories_reported_counterexample:
  "request_category_names cafe_D - name ` set (categories paris_db) = {''garden'', ''view''} \<and>
   create_cafe paris_db cafe_D = (Inl (HTTPException 400 (Category_does_not_exist ''garden'')), paris_db) \<and>
   '''' \<notin> name ` set (categories paris_db) \<and>
   get_cafes paris_db None (Some '''') None = (Inr [from_orm paris_db cafe_A], paris_db)"
  by code_simp

section \<open>Read operations\<close>

text \<open>
  C10. Listing and filtering cafes, recommending and listing categories leave the store
  as it was, whether they return a result or an error.
\<close>

theorem reads_leave_store_unchanged:
  "snd (get_cafes d city_arg best also) = d \<and>
   snd (recommend_similar_cafes sim argsort d i) = d \<and>
   snd (get_categories d) = d"
  by (simp add: get_cafes_def Let_def recommend_similar_cafes_def get_categories_def
           split: option.split sum.split)

end
